theory Spec2Isabelle
  imports Main "HOL-Library.Word" "HOL-Library.Monad_Syntax"
begin

unbundle bit_operations_syntax

section \<open>Machine types and memory\<close>

type_synonym u8 = "8 word"
type_synonym u16 = "16 word"
type_synonym u32 = "32 word"

text \<open>
  Arrays are lists. An access outside an array is undefined behaviour in the source; the
  model makes it a value: \<open>None\<close> in kernels and host routines, \<open>Inl OutOfBounds\<close> in the
  \<open>Bitmask\<close> member functions, where it has to be told apart from a failed \<open>assert\<close>.
\<close>

datatype fault = AssertionFailed | OutOfBounds

definition rd :: "'a list \<Rightarrow> nat \<Rightarrow> 'a option" where
  "rd xs i = (if i < length xs then Some (xs ! i) else None)"

definition DIVIDE_UP :: "nat \<Rightarrow> nat \<Rightarrow> nat" where
  "DIVIDE_UP n d = (n + d - 1) div d"

section \<open>Bit-level helpers (rxmesh/util/bitmask_util.h)\<close>

text \<open>
  Modelled from the spec: the helpers of \<open>rxmesh/util/bitmask_util.h\<close>
  (\<open>detail::mask_num_bytes\<close>, \<open>detail::bitmask_set_bit\<close>, \<open>detail::bitmask_clear_bit\<close>,
  \<open>detail::bitmask_flip_bit\<close>, \<open>detail::is_set_bit\<close>, \<open>detail::is_deleted\<close>,
  \<open>detail::is_owned\<close>) are not among the sources. The spec gives a mask of N bits as a
  word array of \<open>ceil(N/32)\<close> 32-bit words with \<open>num_bytes = ceil(N/32)*4\<close>, one bit per
  local index; bit \<open>i\<close> is bit \<open>i mod 32\<close> of word \<open>i div 32\<close>. An active bit of 0 means
  deleted, an owned bit of 1 means owned. The \<open>is_atomic\<close> flag selects an atomic
  read-modify-write on the device; the word that results is the same.
\<close>

definition mask_num_words :: "u16 \<Rightarrow> nat" where
  "mask_num_words sz = DIVIDE_UP (unat sz) 32"

definition mask_num_bytes :: "u16 \<Rightarrow> u16" where
  "mask_num_bytes sz = word_of_nat (DIVIDE_UP (unat sz) 32) * 4"

definition bitmask_set_bit :: "u16 \<Rightarrow> u32 list \<Rightarrow> bool \<Rightarrow> u32 list option" where
  "bitmask_set_bit b bitmask is_atomic =
     (let idx = unat b div 32 in
      if idx < length bitmask
      then Some (bitmask[idx := (bitmask ! idx) OR push_bit (unat b mod 32) 1])
      else None)"

definition bitmask_clear_bit :: "u16 \<Rightarrow> u32 list \<Rightarrow> bool \<Rightarrow> u32 list option" where
  "bitmask_clear_bit b bitmask is_atomic =
     (let idx = unat b div 32 in
      if idx < length bitmask
      then Some (bitmask[idx := (bitmask ! idx) AND NOT (push_bit (unat b mod 32) 1)])
      else None)"

definition bitmask_flip_bit :: "u16 \<Rightarrow> u32 list \<Rightarrow> bool \<Rightarrow> u32 list option" where
  "bitmask_flip_bit b bitmask is_atomic =
     (let idx = unat b div 32 in
      if idx < length bitmask
      then Some (bitmask[idx := (bitmask ! idx) XOR push_bit (unat b mod 32) 1])
      else None)"

definition is_set_bit :: "u16 \<Rightarrow> u32 list \<Rightarrow> bool option" where
  "is_set_bit b bitmask =
     (let idx = unat b div 32 in
      if idx < length bitmask
      then Some ((bitmask ! idx) AND push_bit (unat b mod 32) 1 \<noteq> 0)
      else None)"

definition is_deleted :: "u16 \<Rightarrow> u32 list \<Rightarrow> bool option" where
  "is_deleted local_id active_mask = map_option Not (is_set_bit local_id active_mask)"

definition is_owned :: "u16 \<Rightarrow> u32 list \<Rightarrow> bool option" where
  "is_owned local_id owned_mask = is_set_bit local_id owned_mask"

section \<open>Bitmask\<close>

text \<open>
  \<open>struct Bitmask\<close>: the number of bits \<open>m_size\<close> and the word array \<open>m_bitmask\<close> points
  to. Each single-bit member function asserts \<open>bit < size()\<close> first.
\<close>

record Bitmask =
  m_size :: u16
  m_bitmask :: "u32 list"

definition size_Bitmask :: "Bitmask \<Rightarrow> u16" where
  "size_Bitmask b = m_size b"

definition num_bytes :: "Bitmask \<Rightarrow> u16" where
  "num_bytes b = mask_num_bytes (size_Bitmask b)"

definition lift_mask :: "Bitmask \<Rightarrow> u32 list option \<Rightarrow> fault + Bitmask" where
  "lift_mask b r = (case r of None \<Rightarrow> Inl OutOfBounds | Some m \<Rightarrow> Inr (b\<lparr>m_bitmask := m\<rparr>))"

definition set_Bitmask :: "Bitmask \<Rightarrow> u16 \<Rightarrow> bool \<Rightarrow> fault + Bitmask" where
  "set_Bitmask b bt is_atomic =
     (if \<not> bt < size_Bitmask b then Inl AssertionFailed
      else lift_mask b (bitmask_set_bit bt (m_bitmask b) is_atomic))"

definition reset_Bitmask :: "Bitmask \<Rightarrow> u16 \<Rightarrow> bool \<Rightarrow> fault + Bitmask" where
  "reset_Bitmask b bt is_atomic =
     (if \<not> bt < size_Bitmask b then Inl AssertionFailed
      else lift_mask b (bitmask_clear_bit bt (m_bitmask b) is_atomic))"

definition flip_Bitmask :: "Bitmask \<Rightarrow> u16 \<Rightarrow> bool \<Rightarrow> fault + Bitmask" where
  "flip_Bitmask b bt is_atomic =
     (if \<not> bt < size_Bitmask b then Inl AssertionFailed
      else lift_mask b (bitmask_flip_bit bt (m_bitmask b) is_atomic))"

definition test_Bitmask :: "Bitmask \<Rightarrow> u16 \<Rightarrow> fault + bool" where
  "test_Bitmask b bt =
     (if \<not> bt < size_Bitmask b then Inl AssertionFailed
      else (case is_set_bit bt (m_bitmask b) of None \<Rightarrow> Inl OutOfBounds | Some r \<Rightarrow> Inr r))"

text \<open>A mask is backed by at least \<open>ceil(size/32)\<close> words.\<close>

definition Bitmask_backed :: "Bitmask \<Rightarrow> bool" where
  "Bitmask_backed b = (mask_num_words (m_size b) \<le> length (m_bitmask b))"

section \<open>Patch data model\<close>

text \<open>
  Modelled from the spec: \<open>LPPair\<close>, \<open>LPHashTable\<close> and \<open>PatchStash\<close> are declared in
  headers that are not among the sources. The spec gives an LP pair as one machine word,
  an LP table as a raw table of \<open>capacity\<close> pairs plus a fixed-size overflow stash, both
  byte-copyable, and the patch stash as a fixed-capacity array of neighbour patch ids.
  \<open>num_bytes_lp\<close> is \<open>LPHashTable::num_bytes()\<close> counted in pairs.
\<close>

type_synonym LPPair = u32

record LPHashTable =
  m_table :: "LPPair list"
  m_stash :: "LPPair list"
  m_capacity :: u16

definition num_bytes_lp :: "LPHashTable \<Rightarrow> nat" where
  "num_bytes_lp t = unat (m_capacity t)"

text \<open>
  The lookups of the LP table and of the patch stash are not among the sources either;
  the kernels take them as parameters: \<open>lp_find\<close> is \<open>LPHashTable::find\<close>,
  \<open>local_id_in_owner_patch\<close> is the pair's accessor and \<open>get_patch\<close> is
  \<open>PatchStash::get_patch\<close> applied to the stash array and a pair.
\<close>

record LPApi =
  lp_find :: "LPHashTable \<Rightarrow> u16 \<Rightarrow> LPPair"
  local_id_in_owner_patch :: "LPPair \<Rightarrow> u16"
  get_patch :: "u32 list \<Rightarrow> LPPair \<Rightarrow> u32"

text \<open>
  \<open>PatchInfo\<close>: the counts and capacities are pointers to one value each in the source
  (\<open>num_edges[0]\<close>), \<open>ev\<close> holds two local vertex ids per edge and \<open>fe\<close> three packed
  edge ids per face (\<open>LocalVertexT\<close> and \<open>LocalEdgeT\<close> wrap a \<open>uint16_t id\<close>).
\<close>

record PatchInfo =
  patch_id :: u32
  num_vertices :: u16
  num_edges :: u16
  num_faces :: u16
  vertices_capacity :: u16
  edges_capacity :: u16
  faces_capacity :: u16
  ev :: "u16 list"
  fe :: "u16 list"
  active_mask_v :: "u32 list"
  active_mask_e :: "u32 list"
  active_mask_f :: "u32 list"
  owned_mask_v :: "u32 list"
  owned_mask_e :: "u32 list"
  owned_mask_f :: "u32 list"
  patch_stash :: "u32 list"
  lp_v :: LPHashTable
  lp_e :: LPHashTable
  lp_f :: LPHashTable

text \<open>\<open>Context\<close>: the device-side counts (one value each) and the array of patches.\<close>

record Context =
  m_num_patches :: u32
  m_num_vertices :: u32
  m_num_edges :: u32
  m_num_faces :: u32
  m_patches_info :: "PatchInfo list"

text \<open>
  Modelled from the spec: \<open>Context::unpack_edge_dir\<close> is not among the sources. A packed
  face-edge entry is the local edge index tagged with a direction bit; the design notes
  of the spec give the decoding as a right shift by one that drops the direction bit.
\<close>

definition unpack_edge_dir :: "u16 \<Rightarrow> u16 \<times> u8" where
  "unpack_edge_dir edge_dir = (drop_bit 1 edge_dir, ucast (edge_dir AND 1))"

text \<open>
  Modelled from the spec: \<open>load_async\<close> (\<open>rxmesh/kernels/loader.cuh\<close>) bulk-loads the
  first \<open>n\<close> entries of a global array into the block's shared memory.
\<close>

definition load_async :: "'a list \<Rightarrow> nat \<Rightarrow> 'a list option" where
  "load_async src n = (if n \<le> length src then Some (take n src) else None)"

section \<open>Kernels of the validator\<close>

text \<open>
  A kernel runs one block per patch. The threads only add to counters atomically, so
  the order of their steps does not matter: \<open>atomic_sum f is\<close> is the number of
  \<open>atomicAdd(d_check, 1)\<close> that the steps \<open>is\<close> perform, and \<open>None\<close> when one of them reads
  or writes outside an array or does not return.
\<close>

fun atomic_sum :: "(nat \<Rightarrow> nat option) \<Rightarrow> nat list \<Rightarrow> nat option" where
  "atomic_sum f [] = Some 0"
| "atomic_sum f (i # is) =
     (case f i of None \<Rightarrow> None
      | Some a \<Rightarrow> (case atomic_sum f is of None \<Rightarrow> None | Some b \<Rightarrow> Some (a + b)))"

text \<open>
  Every launch of \<open>validate()\<close> has \<open>block_size = 256\<close> threads per block. Inside a block
  the thread \<open>threadIdx.x\<close> runs \<open>for (uint16_t e = threadIdx.x; e < n; e += blockThreads)\<close>
  with a 16-bit loop variable. \<open>thread_for\<close> is that loop, with fuel for the tests of
  \<open>e < n\<close>: the loop variable takes at most 256 values, so a thread that has passed 256
  tests is back at the value it started from and never leaves the loop. With fuel 256
  the loop is \<open>None\<close> exactly when the thread does not return or a step fails.
\<close>

definition blockThreads :: nat where
  "blockThreads = 256"

fun thread_for :: "nat \<Rightarrow> u16 \<Rightarrow> u16 \<Rightarrow> (nat \<Rightarrow> nat option) \<Rightarrow> nat option" where
  "thread_for 0 e n body = None"
| "thread_for (Suc fuel) e n body =
     (if e < n
      then (case body (unat e) of None \<Rightarrow> None
            | Some a \<Rightarrow>
                (case thread_for fuel (e + word_of_nat blockThreads) n body of None \<Rightarrow> None
                 | Some b \<Rightarrow> Some (a + b)))
      else Some 0)"

definition block_for :: "u16 \<Rightarrow> (nat \<Rightarrow> nat option) \<Rightarrow> nat option" where
  "block_for n body =
     atomic_sum (\<lambda>threadIdx. thread_for 256 (word_of_nat threadIdx) n body) [0..<blockThreads]"

text \<open>
  The same loop for steps that update shared memory of the block (\<open>'s\<close>), thread after
  thread; the steps of different threads are atomic increments or writes to different
  entries, so every interleaving leaves the same memory.
\<close>

fun thread_fold :: "nat \<Rightarrow> u16 \<Rightarrow> u16 \<Rightarrow> (nat \<Rightarrow> 's \<Rightarrow> 's option) \<Rightarrow> 's \<Rightarrow> 's option" where
  "thread_fold 0 e n step s = None"
| "thread_fold (Suc fuel) e n step s =
     (if e < n
      then (case step (unat e) s of None \<Rightarrow> None
            | Some s' \<Rightarrow> thread_fold fuel (e + word_of_nat blockThreads) n step s')
      else Some s)"

fun block_fold :: "nat list \<Rightarrow> u16 \<Rightarrow> (nat \<Rightarrow> 's \<Rightarrow> 's option) \<Rightarrow> 's \<Rightarrow> 's option" where
  "block_fold [] n step s = Some s"
| "block_fold (threadIdx # threads) n step s =
     (case thread_fold 256 (word_of_nat threadIdx) n step s of None \<Rightarrow> None
      | Some s' \<Rightarrow> block_fold threads n step s')"

text \<open>
  One block of a kernel launched on \<open>grid_size\<close> blocks: the block of index \<open>p_id\<close> (the source's \<open>patch_id = blockIdx.x\<close>)
  works on \<open>context.m_patches_info[p_id]\<close> when \<open>p_id < context.m_num_patches[0]\<close>
  and does nothing otherwise.
\<close>

definition launch :: "nat \<Rightarrow> Context \<Rightarrow> (nat \<Rightarrow> PatchInfo \<Rightarrow> nat option) \<Rightarrow> nat option" where
  "launch grid_size context block =
     atomic_sum (\<lambda>p_id.
        if p_id < unat (m_num_patches context)
        then (case rd (m_patches_info context) p_id of
                None \<Rightarrow> None
              | Some patch_info \<Rightarrow> block p_id patch_info)
        else Some 0) [0..<grid_size]"

text \<open>A write to one entry of an array.\<close>

definition vec_set :: "'a list \<Rightarrow> nat \<Rightarrow> 'a \<Rightarrow> 'a list option" where
  "vec_set xs i v = (if i < length xs then Some (xs[i := v]) else None)"

text \<open>The C operators \<open>||\<close> and \<open>&&\<close> evaluate their right operand only when needed.\<close>

definition lor :: "bool option \<Rightarrow> bool option \<Rightarrow> bool option" where
  "lor a b = (case a of None \<Rightarrow> None | Some True \<Rightarrow> Some True | Some False \<Rightarrow> b)"

definition land :: "bool option \<Rightarrow> bool option \<Rightarrow> bool option" where
  "land a b = (case a of None \<Rightarrow> None | Some False \<Rightarrow> Some False | Some True \<Rightarrow> b)"

definition lnot :: "bool option \<Rightarrow> bool option" where
  "lnot a = map_option Not a"

definition incr :: "bool \<Rightarrow> nat" where
  "incr c = (if c then 1 else 0)"

subsection \<open>\<open>detail::calc_num_elements\<close>\<close>

text \<open>
  Modelled from the spec: \<open>for_each_dispatcher\<close> (\<open>rxmesh/kernels/for_each_dispatcher.cuh\<close>)
  is not among the sources. By the spec the element-count check sums, over all patches,
  the elements for which the owned mask is set, by type: the dispatcher applies its
  lambda once to every local index below the patch's count whose owned bit is set.
  \<open>for_each_dispatcher\<close> is the number of applications; the arguments select the count
  and the owned mask of the type (\<open>Op::V\<close>, \<open>Op::E\<close> or \<open>Op::F\<close>).
\<close>

definition for_each_dispatcher ::
  "(PatchInfo \<Rightarrow> u16) \<Rightarrow> (PatchInfo \<Rightarrow> u32 list) \<Rightarrow> nat \<Rightarrow> Context \<Rightarrow> nat option" where
  "for_each_dispatcher num owned_mask grid_size context =
     launch grid_size context (\<lambda>p_id patch_info.
        atomic_sum (\<lambda>i. map_option incr (is_owned (word_of_nat i) (owned_mask patch_info)))
          [0..<unat (num patch_info)])"

text \<open>
  \<open>calc_num_elements\<close> adds 1 to a 32-bit counter per application
  (\<open>::atomicAdd(sum_num_vertices, 1u)\<close>); the counters start at 0.
\<close>

definition calc_num_elements :: "nat \<Rightarrow> Context \<Rightarrow> (u32 \<times> u32 \<times> u32) option" where
  "calc_num_elements grid_size context =
     (case for_each_dispatcher num_vertices owned_mask_v grid_size context of None \<Rightarrow> None
      | Some sv \<Rightarrow>
     (case for_each_dispatcher num_edges owned_mask_e grid_size context of None \<Rightarrow> None
      | Some se \<Rightarrow>
     (case for_each_dispatcher num_faces owned_mask_f grid_size context of None \<Rightarrow> None
      | Some sf \<Rightarrow> Some (word_of_nat sv, word_of_nat se, word_of_nat sf))))"

subsection \<open>\<open>detail::check_uniqueness\<close>\<close>

text \<open>The iteration \<open>e\<close> of the loop over edges, on the shared copy \<open>s_ev\<close>.\<close>

definition uniqueness_edge :: "PatchInfo \<Rightarrow> u16 list \<Rightarrow> nat \<Rightarrow> nat option" where
  "uniqueness_edge patch_info s_ev e = do {
     v0 \<leftarrow> rd s_ev (2 * e + 0);
     v1 \<leftarrow> rd s_ev (2 * e + 1);
     del \<leftarrow> is_deleted (word_of_nat e) (active_mask_e patch_info);
     if \<not> del then do {
       let c1 = incr (v0 \<ge> num_vertices patch_info \<or> v1 \<ge> num_vertices patch_info \<or> v0 = v1);
       c2 \<leftarrow> lor (is_deleted v0 (active_mask_v patch_info))
                 (is_deleted v1 (active_mask_v patch_info));
       Some (c1 + incr c2)
     } else Some 0
   }"

text \<open>
  The loop over faces tests \<open>e0 >= patch_info.num_edges[0]\<close> and then reads
  \<open>s_ev[(2 * e0) + (1 * d0)]\<close> whatever the test gave. \<open>s_ev\<close> has \<open>2 * num_edges\<close> entries, so
  for an edge index that has failed the test the read is past the end of \<open>s_ev\<close>. The
  source does not fix what such a read yields: a value that lies behind the array in the
  shared memory of the block, or a fault. \<open>past_s_ev i\<close> is the outcome of reading the entry
  \<open>i\<close> past the end: \<open>Some v\<close> when the read yields the 16-bit value \<open>v\<close>, \<open>None\<close> when it faults.
\<close>

definition rd_past :: "(nat \<Rightarrow> u16 option) \<Rightarrow> u16 list \<Rightarrow> nat \<Rightarrow> u16 option" where
  "rd_past past_s_ev s_ev i = (if i < length s_ev then Some (s_ev ! i) else past_s_ev i)"

text \<open>The iteration \<open>f\<close> of the loop over faces.\<close>

definition uniqueness_face ::
  "(nat \<Rightarrow> u16 option) \<Rightarrow> PatchInfo \<Rightarrow> u16 list \<Rightarrow> u16 list \<Rightarrow> nat \<Rightarrow> nat option" where
  "uniqueness_face past_s_ev patch_info s_ev s_fe f = do {
     del \<leftarrow> is_deleted (word_of_nat f) (active_mask_f patch_info);
     if \<not> del then do {
       x0 \<leftarrow> rd s_fe (3 * f + 0);
       x1 \<leftarrow> rd s_fe (3 * f + 1);
       x2 \<leftarrow> rd s_fe (3 * f + 2);
       let (e0, d0) = unpack_edge_dir x0;
       let (e1, d1) = unpack_edge_dir x1;
       let (e2, d2) = unpack_edge_dir x2;
       let c1 = incr (e0 \<ge> num_edges patch_info \<or> e1 \<ge> num_edges patch_info \<or>
                      e2 \<ge> num_edges patch_info \<or> e0 = e1 \<or> e0 = e2 \<or> e1 = e2);
       c2 \<leftarrow> lor (is_deleted e0 (active_mask_e patch_info))
              (lor (is_deleted e1 (active_mask_e patch_info))
                   (is_deleted e2 (active_mask_e patch_info)));
       v0 \<leftarrow> rd_past past_s_ev s_ev (2 * unat e0 + 1 * unat d0);
       v1 \<leftarrow> rd_past past_s_ev s_ev (2 * unat e1 + 1 * unat d1);
       v2 \<leftarrow> rd_past past_s_ev s_ev (2 * unat e2 + 1 * unat d2);
       let c3 = incr (v0 \<ge> num_vertices patch_info \<or> v1 \<ge> num_vertices patch_info \<or>
                      v2 \<ge> num_vertices patch_info \<or> v0 = v1 \<or> v0 = v2 \<or> v1 = v2);
       c4 \<leftarrow> lor (is_deleted v0 (active_mask_v patch_info))
              (lor (is_deleted v1 (active_mask_v patch_info))
                   (is_deleted v2 (active_mask_v patch_info)));
       Some (c1 + incr c2 + c3 + incr c4)
     } else Some 0
   }"

definition check_uniqueness_block ::
  "(nat \<Rightarrow> u16 option) \<Rightarrow> nat \<Rightarrow> PatchInfo \<Rightarrow> nat option" where
  "check_uniqueness_block past_s_ev p_id patch_info = do {
     s_ev \<leftarrow> load_async (ev patch_info) (2 * unat (num_edges patch_info));
     s_fe \<leftarrow> load_async (fe patch_info) (3 * unat (num_faces patch_info));
     a \<leftarrow> block_for (num_edges patch_info) (uniqueness_edge patch_info s_ev);
     b \<leftarrow> block_for (num_faces patch_info) (uniqueness_face past_s_ev patch_info s_ev s_fe);
     Some (a + b)
   }"

definition check_uniqueness :: "(nat \<Rightarrow> u16 option) \<Rightarrow> nat \<Rightarrow> Context \<Rightarrow> nat option" where
  "check_uniqueness past_s_ev grid_size context =
     launch grid_size context (check_uniqueness_block past_s_ev)"


subsection \<open>\<open>detail::check_not_owned\<close>\<close>

text \<open>
  The lambdas \<open>get_owned_e\<close> and \<open>get_owned_v\<close>: a local index that is not owned is
  replaced by its local index in the owner patch, and the patch by the owner patch.
\<close>

definition get_owned_e :: "LPApi \<Rightarrow> u16 \<times> u32 \<Rightarrow> PatchInfo \<Rightarrow> (u16 \<times> u32) option" where
  "get_owned_e L ep pinfo = do {
     own \<leftarrow> is_owned (fst ep) (owned_mask_e pinfo);
     if \<not> own then
       let e_pair = lp_find L (lp_e pinfo) (fst ep)
       in Some (local_id_in_owner_patch L e_pair, get_patch L (patch_stash pinfo) e_pair)
     else Some ep
   }"

definition get_owned_v :: "LPApi \<Rightarrow> u16 \<times> u32 \<Rightarrow> PatchInfo \<Rightarrow> (u16 \<times> u32) option" where
  "get_owned_v L vp pinfo = do {
     own \<leftarrow> is_owned (fst vp) (owned_mask_v pinfo);
     if \<not> own then
       let v_pair = lp_find L (lp_v pinfo) (fst vp)
       in Some (local_id_in_owner_patch L v_pair, get_patch L (patch_stash pinfo) v_pair)
     else Some vp
   }"

text \<open>The iteration \<open>f\<close> of the loop over faces, in the block of patch \<open>p_id\<close>.\<close>

definition not_owned_face ::
  "LPApi \<Rightarrow> Context \<Rightarrow> nat \<Rightarrow> PatchInfo \<Rightarrow> u16 list \<Rightarrow> nat \<Rightarrow> nat option" where
  "not_owned_face L context p_id patch_info s_fe f = do {
     c \<leftarrow> land (lnot (is_deleted (word_of_nat f) (active_mask_f patch_info)))
               (lnot (is_owned (word_of_nat f) (owned_mask_f patch_info)));
     if c then do {
       x0 \<leftarrow> rd s_fe (3 * f + 0);
       x1 \<leftarrow> rd s_fe (3 * f + 1);
       x2 \<leftarrow> rd s_fe (3 * f + 2);
       let (e0, d0) = unpack_edge_dir x0;
       let (e1, d1) = unpack_edge_dir x1;
       let (e2, d2) = unpack_edge_dir x2;
       ep0 \<leftarrow> get_owned_e L (e0, word_of_nat p_id) patch_info;
       ep1 \<leftarrow> get_owned_e L (e1, word_of_nat p_id) patch_info;
       ep2 \<leftarrow> get_owned_e L (e2, word_of_nat p_id) patch_info;
       let f_pair = lp_find L (lp_f patch_info) (word_of_nat f);
       let f_owned = local_id_in_owner_patch L f_pair;
       let f_patch = get_patch L (patch_stash patch_info) f_pair;
       owner_patch_info \<leftarrow> rd (m_patches_info context) (unat f_patch);
       own \<leftarrow> is_owned f_owned (owned_mask_f owner_patch_info);
       let c1 = incr (\<not> own);
       is_del \<leftarrow> is_deleted f_owned (active_mask_f owner_patch_info);
       if is_del then Some (c1 + 1)
       else do {
         y0 \<leftarrow> rd (fe owner_patch_info) (3 * unat f_owned + 0);
         y1 \<leftarrow> rd (fe owner_patch_info) (3 * unat f_owned + 1);
         y2 \<leftarrow> rd (fe owner_patch_info) (3 * unat f_owned + 2);
         let (ew0, dw0) = unpack_edge_dir y0;
         let (ew1, dw1) = unpack_edge_dir y1;
         let (ew2, dw2) = unpack_edge_dir y2;
         epw0 \<leftarrow> get_owned_e L (ew0, f_patch) owner_patch_info;
         epw1 \<leftarrow> get_owned_e L (ew1, f_patch) owner_patch_info;
         epw2 \<leftarrow> get_owned_e L (ew2, f_patch) owner_patch_info;
         Some (c1 + incr (fst ep0 \<noteq> fst epw0 \<or> d0 \<noteq> dw0 \<or> snd ep0 \<noteq> snd epw0 \<or>
                          fst ep1 \<noteq> fst epw1 \<or> d1 \<noteq> dw1 \<or> snd ep1 \<noteq> snd epw1 \<or>
                          fst ep2 \<noteq> fst epw2 \<or> d2 \<noteq> dw2 \<or> snd ep2 \<noteq> snd epw2))
       }
     } else Some 0
   }"

text \<open>The iteration \<open>e\<close> of the loop over edges.\<close>

definition not_owned_edge ::
  "LPApi \<Rightarrow> Context \<Rightarrow> nat \<Rightarrow> PatchInfo \<Rightarrow> u16 list \<Rightarrow> nat \<Rightarrow> nat option" where
  "not_owned_edge L context p_id patch_info s_ev e = do {
     c \<leftarrow> land (lnot (is_deleted (word_of_nat e) (active_mask_e patch_info)))
               (lnot (is_owned (word_of_nat e) (owned_mask_e patch_info)));
     if c then do {
       v0 \<leftarrow> rd s_ev (2 * e + 0);
       v1 \<leftarrow> rd s_ev (2 * e + 1);
       vp0 \<leftarrow> get_owned_v L (v0, word_of_nat p_id) patch_info;
       vp1 \<leftarrow> get_owned_v L (v1, word_of_nat p_id) patch_info;
       let e_pair = lp_find L (lp_e patch_info) (word_of_nat e);
       let e_owned = local_id_in_owner_patch L e_pair;
       let e_patch = get_patch L (patch_stash patch_info) e_pair;
       owner_patch_info \<leftarrow> rd (m_patches_info context) (unat e_patch);
       own \<leftarrow> is_owned e_owned (owned_mask_e owner_patch_info);
       let c1 = incr (\<not> own);
       is_del \<leftarrow> is_deleted e_owned (active_mask_e owner_patch_info);
       if is_del then Some (c1 + 1)
       else do {
         vw0 \<leftarrow> rd (ev owner_patch_info) (2 * unat e_owned + 0);
         vw1 \<leftarrow> rd (ev owner_patch_info) (2 * unat e_owned + 1);
         vpw0 \<leftarrow> get_owned_v L (vw0, e_patch) owner_patch_info;
         vpw1 \<leftarrow> get_owned_v L (vw1, e_patch) owner_patch_info;
         Some (c1 + incr (fst vp0 \<noteq> fst vpw0 \<or> snd vp0 \<noteq> snd vpw0 \<or>
                          fst vp1 \<noteq> fst vpw1 \<or> snd vp1 \<noteq> snd vpw1))
       }
     } else Some 0
   }"

definition check_not_owned_block :: "LPApi \<Rightarrow> Context \<Rightarrow> nat \<Rightarrow> PatchInfo \<Rightarrow> nat option" where
  "check_not_owned_block L context p_id patch_info = do {
     s_ev \<leftarrow> load_async (ev patch_info) (2 * unat (num_edges patch_info));
     s_fe \<leftarrow> load_async (fe patch_info) (3 * unat (num_faces patch_info));
     a \<leftarrow> block_for (num_faces patch_info) (not_owned_face L context p_id patch_info s_fe);
     b \<leftarrow> block_for (num_edges patch_info) (not_owned_edge L context p_id patch_info s_ev);
     Some (a + b)
   }"

definition check_not_owned :: "LPApi \<Rightarrow> nat \<Rightarrow> Context \<Rightarrow> nat option" where
  "check_not_owned L grid_size context =
     launch grid_size context (check_not_owned_block L context)"

subsection \<open>\<open>detail::check_ribbon_edges\<close>\<close>

text \<open>
  \<open>s_mark_edges\<close> holds one 16-bit counter per edge, zeroed by a first loop. The lambda
  \<open>mark_if_owned\<close> adds 1 (atomically, modulo \<open>2^16\<close>) to the counter of an owned edge.
\<close>

definition mark_if_owned :: "PatchInfo \<Rightarrow> u16 \<Rightarrow> u16 list \<Rightarrow> u16 list option" where
  "mark_if_owned patch_info edge s_mark_edges = do {
     own \<leftarrow> is_owned edge (owned_mask_e patch_info);
     if own then
       (if unat edge < length s_mark_edges
        then Some (s_mark_edges[unat edge := s_mark_edges ! unat edge + 1])
        else None)
     else Some s_mark_edges
   }"

text \<open>The iteration \<open>f\<close> of the marking loop over faces.\<close>

definition mark_face :: "PatchInfo \<Rightarrow> u16 list \<Rightarrow> nat \<Rightarrow> u16 list \<Rightarrow> u16 list option" where
  "mark_face patch_info s_fe f s_mark_edges = do {
     c \<leftarrow> land (lnot (is_deleted (word_of_nat f) (active_mask_f patch_info)))
               (is_owned (word_of_nat f) (owned_mask_f patch_info));
     if c then do {
       x0 \<leftarrow> rd s_fe (3 * f + 0);
       x1 \<leftarrow> rd s_fe (3 * f + 1);
       x2 \<leftarrow> rd s_fe (3 * f + 2);
       let e0 = drop_bit 1 x0;
       let e1 = drop_bit 1 x1;
       let e2 = drop_bit 1 x2;
       m0 \<leftarrow> mark_if_owned patch_info e0 s_mark_edges;
       m1 \<leftarrow> mark_if_owned patch_info e1 m0;
       mark_if_owned patch_info e2 m1
     } else Some s_mark_edges
   }"

text \<open>The iteration \<open>e\<close> of the final loop over edges.\<close>

definition unmarked_edge :: "PatchInfo \<Rightarrow> u16 list \<Rightarrow> nat \<Rightarrow> nat option" where
  "unmarked_edge patch_info s_mark_edges e = do {
     own \<leftarrow> is_owned (word_of_nat e) (owned_mask_e patch_info);
     if own then do {
       m \<leftarrow> rd s_mark_edges e;
       Some (incr (m = 0))
     } else Some 0
   }"

definition check_ribbon_edges_block :: "nat \<Rightarrow> PatchInfo \<Rightarrow> nat option" where
  "check_ribbon_edges_block p_id patch_info = do {
     s_fe \<leftarrow> load_async (fe patch_info) (3 * unat (num_faces patch_info));
     zeroed \<leftarrow> block_fold [0..<blockThreads] (num_edges patch_info)
                 (\<lambda>e s_mark_edges. vec_set s_mark_edges e 0)
                 (replicate (unat (num_edges patch_info)) 0);
     s_mark_edges \<leftarrow> block_fold [0..<blockThreads] (num_faces patch_info)
                       (mark_face patch_info s_fe) zeroed;
     block_for (num_edges patch_info) (unmarked_edge patch_info s_mark_edges)
   }"

definition check_ribbon_edges :: "nat \<Rightarrow> Context \<Rightarrow> nat option" where
  "check_ribbon_edges grid_size context = launch grid_size context check_ribbon_edges_block"

section \<open>The mesh object\<close>

text \<open>
  \<open>RXMeshDynamic\<close>, as far as \<open>validate()\<close> and \<open>update_host()\<close> touch it: the host-side
  counts (\<open>this->m_num_patches\<close> and the like, suffixed \<open>_host\<close> here because \<open>Context\<close>
  has fields of the same names), the device context, the device and host arrays of
  patches, the host vectors of per-patch counts and prefix sums, their device-side
  summary arrays, and the names of the attributes registered with the mesh.
  \<open>calc_max_elements()\<close> and the \<open>m_max_*_per_patch\<close> members it recomputes (used for the
  shared-memory size of a launch) are not among the sources and are left out, as is the
  Polyscope block compiled under \<open>USE_POLYSCOPE\<close>.
\<close>

record RXMeshDynamic =
  m_quite :: bool
  m_num_patches_host :: u32
  m_num_vertices_host :: u32
  m_num_edges_host :: u32
  m_num_faces_host :: u32
  m_rxmesh_context :: Context
  m_d_patches_info :: "PatchInfo list"
  m_h_patches_info :: "PatchInfo list"
  m_h_num_v :: "u32 list"
  m_h_num_e :: "u32 list"
  m_h_num_f :: "u32 list"
  m_h_num_owned_v :: "u32 list"
  m_h_num_owned_e :: "u32 list"
  m_h_num_owned_f :: "u32 list"
  m_h_vertex_prefix :: "u32 list"
  m_h_edge_prefix :: "u32 list"
  m_h_face_prefix :: "u32 list"
  m_d_num_v :: "u32 list"
  m_d_num_e :: "u32 list"
  m_d_num_f :: "u32 list"
  m_d_num_owned_v :: "u32 list"
  m_d_num_owned_e :: "u32 list"
  m_d_num_owned_f :: "u32 list"
  m_attr_container :: "string list"

text \<open>
  Modelled from the spec: \<open>RXMESH_ERROR\<close> (\<open>rxmesh/util/log.h\<close>) is not among the sources.
  By the spec a host-side issue is reported through a logging channel at a severity that
  does not terminate the process: the macro appends its message to the log and returns.
  A message is its format string.
\<close>

definition RXMESH_ERROR :: "string \<Rightarrow> string list \<Rightarrow> string list" where
  "RXMESH_ERROR msg log = log @ [msg]"

text \<open>
  Modelled from the spec: \<open>add_vertex_attribute\<close> (\<open>RXMeshStatic\<close>) is not among the
  sources. By the spec the attribute storage maps an element handle and an attribute
  index to a value slot and the validator stages the global vertex-to-face adjacency in
  it: the call registers an attribute of the given name with the mesh.
\<close>

definition add_vertex_attribute :: "string \<Rightarrow> RXMeshDynamic \<Rightarrow> RXMeshDynamic" where
  "add_vertex_attribute name this = this\<lparr>m_attr_container := m_attr_container this @ [name]\<rparr>"

section \<open>\<open>RXMeshDynamic::validate\<close>\<close>

text \<open>
  \<open>d_check\<close> is one 64-bit counter on the device, set to 0 before a check; a kernel that
  performs \<open>n\<close> atomic increments leaves \<open>d_check + n\<close> in it.
\<close>

definition after_kernel :: "64 word \<Rightarrow> nat \<Rightarrow> 64 word" where
  "after_kernel d_check n = d_check + word_of_nat n"

definition is_okay :: "64 word \<Rightarrow> bool" where
  "is_okay d_check = (let h_check = d_check in if h_check \<noteq> 0 then False else True)"

text \<open>The four lambdas of \<open>validate()\<close>; \<open>num_patches\<close> is the grid size of every launch.\<close>

definition v_check_num_mesh_elements :: "nat \<Rightarrow> Context \<Rightarrow> bool option" where
  "v_check_num_mesh_elements num_patches context = do {
     (sum_num_vertices, sum_num_edges, sum_num_faces) \<leftarrow> calc_num_elements num_patches context;
     if m_num_vertices context \<noteq> sum_num_vertices \<or> m_num_edges context \<noteq> sum_num_edges \<or>
        m_num_faces context \<noteq> sum_num_faces
     then Some False else Some True
   }"

definition v_check_uniqueness :: "(nat \<Rightarrow> u16 option) \<Rightarrow> nat \<Rightarrow> Context \<Rightarrow> bool option" where
  "v_check_uniqueness past_s_ev num_patches context = do {
     n \<leftarrow> check_uniqueness past_s_ev num_patches context;
     Some (is_okay (after_kernel 0 n))
   }"

definition v_check_not_owned :: "LPApi \<Rightarrow> nat \<Rightarrow> Context \<Rightarrow> bool option" where
  "v_check_not_owned L num_patches context = do {
     n \<leftarrow> check_not_owned L num_patches context;
     Some (is_okay (after_kernel 0 n))
   }"

text \<open>
  The second half of \<open>check_ribbon\<close> runs \<open>compute_max_valence\<close>, \<open>compute_vf\<close> and
  \<open>check_ribbon_faces\<close>, which go through the query dispatcher, \<open>f_v\<close> and
  \<open>block_mat_transpose\<close>; none of these is among the sources and the spec keeps the
  query primitives out of scope. \<open>ribbon_faces\<close> stands for the three launches: the
  number of increments of \<open>d_check\<close> that \<open>check_ribbon_faces\<close> performs, or \<open>None\<close>.
  \<open>d_check\<close> is not reset between the two halves.
\<close>

definition v_check_ribbon ::
  "(nat \<Rightarrow> Context \<Rightarrow> nat option) \<Rightarrow> nat \<Rightarrow> RXMeshDynamic \<Rightarrow> (bool \<times> RXMeshDynamic) option" where
  "v_check_ribbon ribbon_faces num_patches this = do {
     n \<leftarrow> check_ribbon_edges num_patches (m_rxmesh_context this);
     let d_check = after_kernel 0 n;
     if \<not> is_okay d_check then Some (False, this)
     else do {
       let this = add_vertex_attribute ''vf'' this;
       m \<leftarrow> ribbon_faces num_patches (m_rxmesh_context this);
       Some (is_okay (after_kernel d_check m), this)
     }
   }"

definition msg_check_num_mesh_elements :: string where
  "msg_check_num_mesh_elements = ''RXMeshDynamic::validate() check_num_mesh_elements failed''"

definition msg_check_uniqueness :: string where
  "msg_check_uniqueness = ''RXMeshDynamic::validate() check_uniqueness failed''"

definition msg_check_not_owned :: string where
  "msg_check_not_owned = ''RXMeshDynamic::validate() check_not_owned failed''"

definition msg_check_ribbon :: string where
  "msg_check_ribbon = ''RXMeshDynamic::validate() check_ribbon failed''"

text \<open>\<open>if (!check()) { RXMESH_ERROR(msg); success = false; }\<close> on the pair of \<open>success\<close> and the log.\<close>

definition report :: "bool \<Rightarrow> string \<Rightarrow> bool \<times> string list \<Rightarrow> bool \<times> string list" where
  "report ok msg sl = (if \<not> ok then (False, RXMESH_ERROR msg (snd sl)) else sl)"

text \<open>
  \<open>validate()\<close> returns \<open>success\<close>; the model returns with it the messages logged during
  the call and the mesh object after the call, and \<open>None\<close> when a kernel accesses memory
  out of range or does not return. \<open>past_s_ev\<close> is the outcome of the reads past the end of
  \<open>s_ev\<close> in the uniqueness kernel.
\<close>

definition validate ::
  "LPApi \<Rightarrow> (nat \<Rightarrow> u16 option) \<Rightarrow> (nat \<Rightarrow> Context \<Rightarrow> nat option) \<Rightarrow> RXMeshDynamic \<Rightarrow>
   (bool \<times> string list \<times> RXMeshDynamic) option" where
  "validate L past_s_ev ribbon_faces this0 = do {
     let cached_quite = m_quite this0;
     let this = this0\<lparr>m_quite := True\<rparr>;
     let num_patches = unat (m_num_patches (m_rxmesh_context this));
     let sl = (True, []);
     c1 \<leftarrow> v_check_num_mesh_elements num_patches (m_rxmesh_context this);
     let sl = report c1 msg_check_num_mesh_elements sl;
     c2 \<leftarrow> v_check_uniqueness past_s_ev num_patches (m_rxmesh_context this);
     let sl = report c2 msg_check_uniqueness sl;
     c3 \<leftarrow> v_check_not_owned L num_patches (m_rxmesh_context this);
     let sl = report c3 msg_check_not_owned sl;
     (c4, this) \<leftarrow> v_check_ribbon ribbon_faces num_patches this;
     let sl = report c4 msg_check_ribbon sl;
     let this = this\<lparr>m_quite := cached_quite\<rparr>;
     Some (fst sl, snd sl, this)
   }"

text \<open>The message of a check, if it failed.\<close>

definition errs :: "bool \<Rightarrow> string \<Rightarrow> string list" where
  "errs ok msg = (if ok then [] else [msg])"

section \<open>\<open>RXMeshDynamic::update_host\<close>\<close>

text \<open>
  \<open>cudaMemcpy\<close> and \<open>malloc\<close> count in entries here, not in bytes. A copy of \<open>n\<close> entries
  overwrites the first \<open>n\<close> entries of the destination and needs both arrays to hold
  that many. A fresh allocation has indeterminate contents; every allocation of
  \<open>update_host()\<close> is overwritten in full by the copy that follows it.
\<close>

definition cudaMemcpy :: "'a list \<Rightarrow> 'a list \<Rightarrow> nat \<Rightarrow> 'a list option" where
  "cudaMemcpy dst src n =
     (if n \<le> length src \<and> n \<le> length dst then Some (take n src @ drop n dst) else None)"

definition malloc :: "nat \<Rightarrow> 'a::zero list" where
  "malloc n = replicate n 0"

text \<open>The lambda \<open>resize_masks\<close>: the new capacity, active mask and owned mask.\<close>

definition resize_masks :: "u16 \<Rightarrow> u16 \<times> u32 list \<times> u32 list \<Rightarrow> u16 \<times> u32 list \<times> u32 list" where
  "resize_masks sz cam =
     (if sz > fst cam
      then (sz, malloc (mask_num_words sz), malloc (mask_num_words sz))
      else cam)"

text \<open>
  Modelled from the spec: \<open>PatchStash::stash_size\<close> and \<open>LPHashTable::stash_size\<close> are
  constants of headers that are not among the sources; \<open>update_host()\<close> takes them as
  parameters.
\<close>

record Sizes =
  patch_stash_size :: nat
  lp_stash_size :: nat

text \<open>The body of the first loop for one patch: the device patch \<open>d_patch\<close> into the host patch \<open>h\<close>.\<close>

definition copy_counts :: "PatchInfo \<Rightarrow> PatchInfo \<Rightarrow> PatchInfo" where
  "copy_counts d_patch h =
     h\<lparr>num_vertices := num_vertices d_patch, num_edges := num_edges d_patch,
       num_faces := num_faces d_patch\<rparr>"

definition resize_topology :: "PatchInfo \<Rightarrow> PatchInfo" where
  "resize_topology h =
     (let h = (if num_edges h > edges_capacity h
               then h\<lparr>ev := malloc (unat (num_edges h) * 2)\<rparr> else h)
      in (if num_faces h > faces_capacity h
          then h\<lparr>fe := malloc (unat (num_faces h) * 3)\<rparr> else h))"

definition copy_topology :: "PatchInfo \<Rightarrow> PatchInfo \<Rightarrow> PatchInfo option" where
  "copy_topology d_patch h = do {
     ev' \<leftarrow> cudaMemcpy (ev h) (ev d_patch) (2 * unat (num_edges h));
     fe' \<leftarrow> cudaMemcpy (fe h) (fe d_patch) (3 * unat (num_faces h));
     Some (h\<lparr>ev := ev', fe := fe'\<rparr>)
   }"

definition resize_all_masks :: "PatchInfo \<Rightarrow> PatchInfo" where
  "resize_all_masks h =
     (let (cv, av, ov) = resize_masks (num_vertices h)
                           (vertices_capacity h, active_mask_v h, owned_mask_v h);
          (ce, ae, oe) = resize_masks (num_edges h)
                           (edges_capacity h, active_mask_e h, owned_mask_e h);
          (cf, af, owf) = resize_masks (num_faces h)
                           (faces_capacity h, active_mask_f h, owned_mask_f h)
      in h\<lparr>vertices_capacity := cv, active_mask_v := av, owned_mask_v := ov,
           edges_capacity := ce, active_mask_e := ae, owned_mask_e := oe,
           faces_capacity := cf, active_mask_f := af, owned_mask_f := owf\<rparr>)"

definition copy_masks :: "PatchInfo \<Rightarrow> PatchInfo \<Rightarrow> PatchInfo option" where
  "copy_masks d_patch h = do {
     av \<leftarrow> cudaMemcpy (active_mask_v h) (active_mask_v d_patch) (mask_num_words (num_vertices h));
     ov \<leftarrow> cudaMemcpy (owned_mask_v h) (owned_mask_v d_patch) (mask_num_words (num_vertices h));
     ae \<leftarrow> cudaMemcpy (active_mask_e h) (active_mask_e d_patch) (mask_num_words (num_edges h));
     oe \<leftarrow> cudaMemcpy (owned_mask_e h) (owned_mask_e d_patch) (mask_num_words (num_edges h));
     af \<leftarrow> cudaMemcpy (active_mask_f h) (active_mask_f d_patch) (mask_num_words (num_faces h));
     owf \<leftarrow> cudaMemcpy (owned_mask_f h) (owned_mask_f d_patch) (mask_num_words (num_faces h));
     Some (h\<lparr>active_mask_v := av, owned_mask_v := ov, active_mask_e := ae, owned_mask_e := oe,
             active_mask_f := af, owned_mask_f := owf\<rparr>)
   }"

definition copy_lp_table :: "LPHashTable \<Rightarrow> LPHashTable \<Rightarrow> LPHashTable option" where
  "copy_lp_table h_lp d_lp = do {
     t \<leftarrow> cudaMemcpy (m_table h_lp) (m_table d_lp) (num_bytes_lp d_lp);
     Some (h_lp\<lparr>m_table := t\<rparr>)
   }"

definition copy_lp_stash :: "Sizes \<Rightarrow> LPHashTable \<Rightarrow> LPHashTable \<Rightarrow> LPHashTable option" where
  "copy_lp_stash Z h_lp d_lp = do {
     t \<leftarrow> cudaMemcpy (m_stash h_lp) (m_stash d_lp) (lp_stash_size Z);
     Some (h_lp\<lparr>m_stash := t\<rparr>)
   }"

definition copy_stash_lp :: "Sizes \<Rightarrow> PatchInfo \<Rightarrow> PatchInfo \<Rightarrow> PatchInfo option" where
  "copy_stash_lp Z d_patch h = do {
     ps \<leftarrow> cudaMemcpy (patch_stash h) (patch_stash d_patch) (patch_stash_size Z);
     tv \<leftarrow> copy_lp_table (lp_v h) (lp_v d_patch);
     te \<leftarrow> copy_lp_table (lp_e h) (lp_e d_patch);
     tf \<leftarrow> copy_lp_table (lp_f h) (lp_f d_patch);
     sv \<leftarrow> copy_lp_stash Z tv (lp_v d_patch);
     se \<leftarrow> copy_lp_stash Z te (lp_e d_patch);
     sf \<leftarrow> copy_lp_stash Z tf (lp_f d_patch);
     Some (h\<lparr>patch_stash := ps, lp_v := sv, lp_e := se, lp_f := sf\<rparr>)
   }"

definition update_patch :: "Sizes \<Rightarrow> PatchInfo \<Rightarrow> PatchInfo \<Rightarrow> PatchInfo option" where
  "update_patch Z d_patch h = do {
     h \<leftarrow> copy_topology d_patch (resize_topology (copy_counts d_patch h));
     h \<leftarrow> copy_masks d_patch (resize_all_masks h);
     copy_stash_lp Z d_patch h
   }"

text \<open>
  The iteration \<open>p\<close> of the first loop: it fetches \<open>m_d_patches_info[p]\<close>, asserts its
  \<open>patch_id\<close> and updates \<open>m_h_patches_info[p]\<close>.
\<close>

definition patch_step :: "Sizes \<Rightarrow> nat \<Rightarrow> RXMeshDynamic \<Rightarrow> RXMeshDynamic option" where
  "patch_step Z p this = do {
     d_patch \<leftarrow> rd (m_d_patches_info this) p;
     if patch_id d_patch \<noteq> word_of_nat p then None
     else do {
       h \<leftarrow> rd (m_h_patches_info this) p;
       h' \<leftarrow> update_patch Z d_patch h;
       Some (this\<lparr>m_h_patches_info := (m_h_patches_info this)[p := h']\<rparr>)
     }
   }"

fun for_patches ::
  "(nat \<Rightarrow> RXMeshDynamic \<Rightarrow> RXMeshDynamic option) \<Rightarrow> nat list \<Rightarrow> RXMeshDynamic \<Rightarrow>
   RXMeshDynamic option" where
  "for_patches body [] this = Some this"
| "for_patches body (p # ps) this =
     (case body p this of None \<Rightarrow> None | Some this' \<Rightarrow> for_patches body ps this')"

text \<open>
  Modelled from the spec: \<open>PatchInfo::get_num_owned_vertices\<close> (and the edge and face
  variants) are not among the sources; by the spec the per-patch owned count is the
  number of local indices below the patch's count whose owned bit is set.
\<close>

definition get_num_owned :: "u32 list \<Rightarrow> u16 \<Rightarrow> u16 option" where
  "get_num_owned owned_mask n =
     map_option word_of_nat
       (atomic_sum (\<lambda>i. map_option incr (is_owned (word_of_nat i) owned_mask)) [0..<unat n])"

text \<open>
  One element type in the iteration \<open>p\<close> of the second loop: the count, the owned count
  and the next prefix sum, in 32-bit arithmetic.
\<close>

definition count_type ::
  "nat \<Rightarrow> u16 \<Rightarrow> u32 list \<Rightarrow> u32 list \<times> u32 list \<times> u32 list \<Rightarrow>
   (u32 list \<times> u32 list \<times> u32 list) option" where
  "count_type p num owned_mask nop = do {
     h_num \<leftarrow> vec_set (fst nop) p (ucast num);
     c \<leftarrow> get_num_owned owned_mask num;
     h_num_owned \<leftarrow> vec_set (fst (snd nop)) p (ucast c);
     a \<leftarrow> rd (snd (snd nop)) p;
     b \<leftarrow> rd h_num_owned p;
     h_prefix \<leftarrow> vec_set (snd (snd nop)) (p + 1) (a + b);
     Some (h_num, h_num_owned, h_prefix)
   }"

definition count_step :: "nat \<Rightarrow> RXMeshDynamic \<Rightarrow> RXMeshDynamic option" where
  "count_step p this = do {
     h \<leftarrow> rd (m_h_patches_info this) p;
     (nv, ov, pv) \<leftarrow> count_type p (num_vertices h) (owned_mask_v h)
                       (m_h_num_v this, m_h_num_owned_v this, m_h_vertex_prefix this);
     (ne, oe, pe) \<leftarrow> count_type p (num_edges h) (owned_mask_e h)
                       (m_h_num_e this, m_h_num_owned_e this, m_h_edge_prefix this);
     (nf, owf, pf) \<leftarrow> count_type p (num_faces h) (owned_mask_f h)
                       (m_h_num_f this, m_h_num_owned_f this, m_h_face_prefix this);
     Some (this\<lparr>m_h_num_v := nv, m_h_num_owned_v := ov, m_h_vertex_prefix := pv,
                m_h_num_e := ne, m_h_num_owned_e := oe, m_h_edge_prefix := pe,
                m_h_num_f := nf, m_h_num_owned_f := owf, m_h_face_prefix := pf\<rparr>)
   }"

definition vec_back :: "'a list \<Rightarrow> 'a option" where
  "vec_back xs = (if xs = [] then None else Some (last xs))"

definition msg_num_patches :: string where
  "msg_num_patches =
     ''RXMeshDynamic::update_host() does support changing number of patches in the mesh''"

definition msg_vertex_prefix :: string where
  "msg_vertex_prefix =
     ''RXMeshDynamic::update_host error in updating host. m_num_vertices {} does not match m_h_vertex_prefix calculation {}''"

definition msg_edge_prefix :: string where
  "msg_edge_prefix =
     ''RXMeshDynamic::update_host error in updating host. m_num_edges {} does not match m_h_edge_prefix calculation {}''"

definition msg_face_prefix :: string where
  "msg_face_prefix =
     ''RXMeshDynamic::update_host error in updating host. m_num_faces {} does not match m_h_face_prefix calculation {}''"

definition error_if :: "bool \<Rightarrow> string \<Rightarrow> string list \<Rightarrow> string list" where
  "error_if c msg log = (if c then RXMESH_ERROR msg log else log)"

text \<open>The three prefix-sum checks after the second loop.\<close>

definition check_prefix :: "RXMeshDynamic \<Rightarrow> string list \<Rightarrow> string list option" where
  "check_prefix this log = do {
     bv \<leftarrow> vec_back (m_h_vertex_prefix this);
     let log = error_if (bv \<noteq> m_num_vertices_host this) msg_vertex_prefix log;
     be \<leftarrow> vec_back (m_h_edge_prefix this);
     let log = error_if (be \<noteq> m_num_edges_host this) msg_edge_prefix log;
     bf \<leftarrow> vec_back (m_h_face_prefix this);
     let log = error_if (bf \<noteq> m_num_faces_host this) msg_face_prefix log;
     Some log
   }"

text \<open>The six copies of the host vectors to the device-side summary arrays.\<close>

definition push_summaries :: "RXMeshDynamic \<Rightarrow> RXMeshDynamic option" where
  "push_summaries this = do {
     let n = unat (m_num_patches_host this);
     ov \<leftarrow> cudaMemcpy (m_d_num_owned_v this) (m_h_num_owned_v this) n;
     oe \<leftarrow> cudaMemcpy (m_d_num_owned_e this) (m_h_num_owned_e this) n;
     owf \<leftarrow> cudaMemcpy (m_d_num_owned_f this) (m_h_num_owned_f this) n;
     nv \<leftarrow> cudaMemcpy (m_d_num_v this) (m_h_num_v this) n;
     ne \<leftarrow> cudaMemcpy (m_d_num_e this) (m_h_num_e this) n;
     nf \<leftarrow> cudaMemcpy (m_d_num_f this) (m_h_num_f this) n;
     Some (this\<lparr>m_d_num_owned_v := ov, m_d_num_owned_e := oe, m_d_num_owned_f := owf,
                m_d_num_v := nv, m_d_num_e := ne, m_d_num_f := nf\<rparr>)
   }"

definition pull_counts :: "RXMeshDynamic \<Rightarrow> RXMeshDynamic" where
  "pull_counts this =
     this\<lparr>m_num_vertices_host := m_num_vertices (m_rxmesh_context this),
          m_num_edges_host := m_num_edges (m_rxmesh_context this),
          m_num_faces_host := m_num_faces (m_rxmesh_context this)\<rparr>"

text \<open>
  \<open>update_host()\<close> returns nothing; the model returns the messages logged during the call
  and the mesh object after the call, and \<open>None\<close> when a copy or a vector access is out of
  range or the assertion on \<open>patch_id\<close> fails.
\<close>

definition update_host :: "Sizes \<Rightarrow> RXMeshDynamic \<Rightarrow> (string list \<times> RXMeshDynamic) option" where
  "update_host Z this = do {
     let num_patches = m_num_patches (m_rxmesh_context this);
     let log = error_if (num_patches \<noteq> m_num_patches_host this) msg_num_patches [];
     this \<leftarrow> for_patches (patch_step Z) [0..<unat (m_num_patches_host this)] this;
     let this = pull_counts this;
     this \<leftarrow> for_patches count_step [0..<unat (m_num_patches_host this)] this;
     log \<leftarrow> check_prefix this log;
     this \<leftarrow> push_summaries this;
     Some (log, this)
   }"

section \<open>Reading a patch\<close>

text \<open>
  What the entries of a patch say, read without bounds checks; the theorems use these
  readings only where the kernel has read the same entries in range.
\<close>

definition mask_bit :: "u32 list \<Rightarrow> nat \<Rightarrow> bool" where
  "mask_bit bitmask i = bit (bitmask ! (i div 32)) (i mod 32)"

definition edge_vertex :: "PatchInfo \<Rightarrow> nat \<Rightarrow> nat \<Rightarrow> u16" where
  "edge_vertex patch_info e k = ev patch_info ! (2 * e + k)"

definition face_edge :: "PatchInfo \<Rightarrow> nat \<Rightarrow> nat \<Rightarrow> u16" where
  "face_edge patch_info f k = fst (unpack_edge_dir (fe patch_info ! (3 * f + k)))"

definition face_dir :: "PatchInfo \<Rightarrow> nat \<Rightarrow> nat \<Rightarrow> u8" where
  "face_dir patch_info f k = snd (unpack_edge_dir (fe patch_info ! (3 * f + k)))"

text \<open>The vertex of a face derived from its \<open>k\<close>-th edge: the endpoint the direction tag selects.\<close>

definition face_vertex :: "PatchInfo \<Rightarrow> nat \<Rightarrow> nat \<Rightarrow> u16" where
  "face_vertex patch_info f k =
     ev patch_info ! (2 * unat (face_edge patch_info f k) + unat (face_dir patch_info f k))"

definition active_v :: "PatchInfo \<Rightarrow> u16 \<Rightarrow> bool" where
  "active_v patch_info v = mask_bit (active_mask_v patch_info) (unat v)"

definition active_e :: "PatchInfo \<Rightarrow> u16 \<Rightarrow> bool" where
  "active_e patch_info e = mask_bit (active_mask_e patch_info) (unat e)"

definition active_f :: "PatchInfo \<Rightarrow> u16 \<Rightarrow> bool" where
  "active_f patch_info f = mask_bit (active_mask_f patch_info) (unat f)"


definition owned_e :: "PatchInfo \<Rightarrow> u16 \<Rightarrow> bool" where
  "owned_e patch_info e = mask_bit (owned_mask_e patch_info) (unat e)"


subsection \<open>Uniqueness\<close>

text \<open>
  The conditions of the uniqueness check on an edge and on a face, in the words of the
  spec: equal or inactive vertices of an edge; edges of a face that are not pairwise
  distinct or not all active; derived vertices that are not pairwise distinct or not all
  active.
\<close>

definition edge_not_unique :: "PatchInfo \<Rightarrow> nat \<Rightarrow> bool" where
  "edge_not_unique patch_info e =
     (let v0 = edge_vertex patch_info e 0; v1 = edge_vertex patch_info e 1
      in v0 = v1 \<or> \<not> active_v patch_info v0 \<or> \<not> active_v patch_info v1)"

definition face_not_unique :: "PatchInfo \<Rightarrow> nat \<Rightarrow> bool" where
  "face_not_unique patch_info f =
     (let e0 = face_edge patch_info f 0; e1 = face_edge patch_info f 1;
          e2 = face_edge patch_info f 2;
          v0 = face_vertex patch_info f 0; v1 = face_vertex patch_info f 1;
          v2 = face_vertex patch_info f 2
      in e0 = e1 \<or> e0 = e2 \<or> e1 = e2 \<or>
         \<not> active_e patch_info e0 \<or> \<not> active_e patch_info e1 \<or> \<not> active_e patch_info e2 \<or>
         v0 = v1 \<or> v0 = v2 \<or> v1 = v2 \<or>
         \<not> active_v patch_info v0 \<or> \<not> active_v patch_info v1 \<or> \<not> active_v patch_info v2)"

text \<open>The range conditions the kernel tests besides.\<close>

definition edge_out_of_range :: "PatchInfo \<Rightarrow> nat \<Rightarrow> bool" where
  "edge_out_of_range patch_info e =
     (edge_vertex patch_info e 0 \<ge> num_vertices patch_info \<or>
      edge_vertex patch_info e 1 \<ge> num_vertices patch_info)"

definition face_edge_out_of_range :: "PatchInfo \<Rightarrow> nat \<Rightarrow> bool" where
  "face_edge_out_of_range patch_info f =
     (face_edge patch_info f 0 \<ge> num_edges patch_info \<or>
      face_edge patch_info f 1 \<ge> num_edges patch_info \<or>
      face_edge patch_info f 2 \<ge> num_edges patch_info)"

definition face_vertex_out_of_range :: "PatchInfo \<Rightarrow> nat \<Rightarrow> bool" where
  "face_vertex_out_of_range patch_info f =
     (face_vertex patch_info f 0 \<ge> num_vertices patch_info \<or>
      face_vertex patch_info f 1 \<ge> num_vertices patch_info \<or>
      face_vertex patch_info f 2 \<ge> num_vertices patch_info)"

text \<open>
  A patch breaks uniqueness as the spec words it when a non-deleted edge or face meets
  the spec's conditions; it has an index out of range when a non-deleted edge or face
  meets a range condition.
\<close>

definition patch_not_unique :: "PatchInfo \<Rightarrow> bool" where
  "patch_not_unique patch_info =
     ((\<exists>e \<in> {0..<unat (num_edges patch_info)}.
          active_e patch_info (word_of_nat e) \<and> edge_not_unique patch_info e) \<or>
      (\<exists>f \<in> {0..<unat (num_faces patch_info)}.
          active_f patch_info (word_of_nat f) \<and> face_not_unique patch_info f))"

definition patch_out_of_range :: "PatchInfo \<Rightarrow> bool" where
  "patch_out_of_range patch_info =
     ((\<exists>e \<in> {0..<unat (num_edges patch_info)}.
          active_e patch_info (word_of_nat e) \<and> edge_out_of_range patch_info e) \<or>
      (\<exists>f \<in> {0..<unat (num_faces patch_info)}.
          active_f patch_info (word_of_nat f) \<and>
          (face_edge_out_of_range patch_info f \<or> face_vertex_out_of_range patch_info f)))"

subsection \<open>Reads of the uniqueness kernel\<close>

text \<open>
  The conditions under which the uniqueness kernel stays inside its arrays and returns.
  A mask has a bit for an index when the word of that bit is allocated. A patch is
  readable when \<open>ev\<close> and \<open>fe\<close> hold the entries that the counts announce, the counts are
  within the reach of the 16-bit loop variable of a block of 256 threads, the active
  masks of the edges and faces have a bit for every local index below the count, and the
  masks have a bit for every vertex index stored in \<open>ev\<close> and every edge index stored in
  \<open>fe\<close>. The reads past the end of \<open>s_ev\<close> are readable when they yield a vertex index that
  the active mask of the vertices has a bit for.
\<close>

definition mask_has :: "u32 list \<Rightarrow> u16 \<Rightarrow> bool" where
  "mask_has bitmask i = (unat i div 32 < length bitmask)"

definition patch_readable :: "PatchInfo \<Rightarrow> bool" where
  "patch_readable patch_info =
     (2 * unat (num_edges patch_info) \<le> length (ev patch_info) \<and>
      3 * unat (num_faces patch_info) \<le> length (fe patch_info) \<and>
      num_edges patch_info \<le> 65280 \<and> num_faces patch_info \<le> 65280 \<and>
      unat (num_edges patch_info) \<le> 32 * length (active_mask_e patch_info) \<and>
      unat (num_faces patch_info) \<le> 32 * length (active_mask_f patch_info) \<and>
      list_all (mask_has (active_mask_v patch_info))
        (take (2 * unat (num_edges patch_info)) (ev patch_info)) \<and>
      list_all (\<lambda>x. mask_has (active_mask_e patch_info) (fst (unpack_edge_dir x)))
        (take (3 * unat (num_faces patch_info)) (fe patch_info)))"

definition past_readable :: "(nat \<Rightarrow> u16 option) \<Rightarrow> PatchInfo \<Rightarrow> bool" where
  "past_readable past_s_ev patch_info =
     (\<forall>i. \<exists>v. past_s_ev i = Some v \<and> mask_has (active_mask_v patch_info) v)"

definition uniqueness_readable :: "(nat \<Rightarrow> u16 option) \<Rightarrow> Context \<Rightarrow> bool" where
  "uniqueness_readable past_s_ev context =
     (unat (m_num_patches context) \<le> length (m_patches_info context) \<and>
      list_all (\<lambda>patch_info. patch_readable patch_info \<and> past_readable past_s_ev patch_info)
        (take (unat (m_num_patches context)) (m_patches_info context)))"

subsection \<open>Owned elements\<close>

text \<open>
  The number of local indices below \<open>n\<close> whose owned bit is set, and its sum over the
  patches of a context, for the count and the owned mask of one element type.
\<close>

definition owned_count :: "u32 list \<Rightarrow> u16 \<Rightarrow> nat" where
  "owned_count owned_mask n = length (filter (mask_bit owned_mask) [0..<unat n])"

definition total_owned :: "(PatchInfo \<Rightarrow> u16) \<Rightarrow> (PatchInfo \<Rightarrow> u32 list) \<Rightarrow> Context \<Rightarrow> nat" where
  "total_owned num owned_mask context =
     sum_list (map (\<lambda>p. owned_count (owned_mask (m_patches_info context ! p))
                                     (num (m_patches_info context ! p)))
                   [0..<unat (m_num_patches context)])"

subsection \<open>Mirroring of not-owned elements\<close>







section \<open>Host mirrors in step with the device\<close>

text \<open>
  A destination that a copy of \<open>n\<close> entries from \<open>src\<close> leaves as it is; an LP table and a
  host patch on which every copy of \<open>update_host()\<close> from the device patch \<open>d\<close> is of that
  kind and no resize is due.
\<close>

definition copied :: "'a list \<Rightarrow> 'a list \<Rightarrow> nat \<Rightarrow> bool" where
  "copied dst src n = (cudaMemcpy dst src n = Some dst)"

definition lp_synced :: "Sizes \<Rightarrow> LPHashTable \<Rightarrow> LPHashTable \<Rightarrow> bool" where
  "lp_synced Z h_lp d_lp =
     (copied (m_table h_lp) (m_table d_lp) (num_bytes_lp d_lp) \<and>
      copied (m_stash h_lp) (m_stash d_lp) (lp_stash_size Z))"

definition patch_synced :: "Sizes \<Rightarrow> PatchInfo \<Rightarrow> PatchInfo \<Rightarrow> bool" where
  "patch_synced Z d h =
     (num_vertices h = num_vertices d \<and> num_edges h = num_edges d \<and> num_faces h = num_faces d \<and>
      num_vertices h \<le> vertices_capacity h \<and> num_edges h \<le> edges_capacity h \<and>
      num_faces h \<le> faces_capacity h \<and>
      copied (ev h) (ev d) (2 * unat (num_edges d)) \<and>
      copied (fe h) (fe d) (3 * unat (num_faces d)) \<and>
      copied (active_mask_v h) (active_mask_v d) (mask_num_words (num_vertices d)) \<and>
      copied (owned_mask_v h) (owned_mask_v d) (mask_num_words (num_vertices d)) \<and>
      copied (active_mask_e h) (active_mask_e d) (mask_num_words (num_edges d)) \<and>
      copied (owned_mask_e h) (owned_mask_e d) (mask_num_words (num_edges d)) \<and>
      copied (active_mask_f h) (active_mask_f d) (mask_num_words (num_faces d)) \<and>
      copied (owned_mask_f h) (owned_mask_f d) (mask_num_words (num_faces d)) \<and>
      copied (patch_stash h) (patch_stash d) (patch_stash_size Z) \<and>
      lp_synced Z (lp_v h) (lp_v d) \<and> lp_synced Z (lp_e h) (lp_e d) \<and>
      lp_synced Z (lp_f h) (lp_f d))"

text \<open>The patch \<open>p\<close> of the mesh object is in step: the iteration \<open>p\<close> of the first loop changes nothing.\<close>

definition patch_fixed :: "Sizes \<Rightarrow> RXMeshDynamic \<Rightarrow> nat \<Rightarrow> bool" where
  "patch_fixed Z this p =
     (p < length (m_d_patches_info this) \<and> p < length (m_h_patches_info this) \<and>
      patch_id (m_d_patches_info this ! p) = word_of_nat p \<and>
      patch_synced Z (m_d_patches_info this ! p) (m_h_patches_info this ! p))"

text \<open>
  The entries of index \<open>p\<close> of the count vectors and the prefix sum of index \<open>p + 1\<close> are
  those the iteration \<open>p\<close> of the second loop computes: the iteration changes nothing.
\<close>

definition type_fixed ::
  "nat \<Rightarrow> u16 \<Rightarrow> u32 list \<Rightarrow> u32 list \<times> u32 list \<times> u32 list \<Rightarrow> bool" where
  "type_fixed p num owned_mask nop = (count_type p num owned_mask nop = Some nop)"

definition count_fixed :: "RXMeshDynamic \<Rightarrow> nat \<Rightarrow> bool" where
  "count_fixed this p =
     (p < length (m_h_patches_info this) \<and>
      (let h = m_h_patches_info this ! p
       in type_fixed p (num_vertices h) (owned_mask_v h)
            (m_h_num_v this, m_h_num_owned_v this, m_h_vertex_prefix this) \<and>
          type_fixed p (num_edges h) (owned_mask_e h)
            (m_h_num_e this, m_h_num_owned_e this, m_h_edge_prefix this) \<and>
          type_fixed p (num_faces h) (owned_mask_f h)
            (m_h_num_f this, m_h_num_owned_f this, m_h_face_prefix this)))"

text \<open>The mesh object with another patch count in the device context.\<close>

definition with_device_patches :: "u32 \<Rightarrow> RXMeshDynamic \<Rightarrow> RXMeshDynamic" where
  "with_device_patches n this =
     this\<lparr>m_rxmesh_context := (m_rxmesh_context this)\<lparr>m_num_patches := n\<rparr>\<rparr>"

section \<open>Concrete inputs\<close>

text \<open>A mask of 40 bits on two words.\<close>

definition mask40 :: Bitmask where
  "mask40 = \<lparr>m_size = 40, m_bitmask = [0x0000FFFF, 0x00000011]\<rparr>"

text \<open>
  A mesh of one triangle. Patch 0 owns its three vertices, three edges and the face;
  patch 1 holds a ribbon copy of all of them, with LP entries that point to patch 0.
\<close>

definition lp_empty :: LPHashTable where
  "lp_empty = \<lparr>m_table = [], m_stash = [0xFFFFFFFF], m_capacity = 0\<rparr>"

definition lp_identity :: LPHashTable where
  "lp_identity = \<lparr>m_table = [0, 1, 2], m_stash = [0xFFFFFFFF], m_capacity = 3\<rparr>"

definition tri_owner :: PatchInfo where
  "tri_owner =
     \<lparr>patch_id = 0, num_vertices = 3, num_edges = 3, num_faces = 1,
      vertices_capacity = 3, edges_capacity = 3, faces_capacity = 1,
      ev = [0, 1, 1, 2, 2, 0], fe = [0, 2, 4],
      active_mask_v = [7], active_mask_e = [7], active_mask_f = [1],
      owned_mask_v = [7], owned_mask_e = [7], owned_mask_f = [1],
      patch_stash = [0xFFFFFFFF],
      lp_v = lp_empty, lp_e = lp_empty, lp_f = lp_empty\<rparr>"

definition tri_ribbon :: PatchInfo where
  "tri_ribbon =
     \<lparr>patch_id = 1, num_vertices = 3, num_edges = 3, num_faces = 1,
      vertices_capacity = 3, edges_capacity = 3, faces_capacity = 1,
      ev = [0, 1, 1, 2, 2, 0], fe = [0, 2, 4],
      active_mask_v = [7], active_mask_e = [7], active_mask_f = [1],
      owned_mask_v = [0], owned_mask_e = [0], owned_mask_f = [0],
      patch_stash = [0],
      lp_v = lp_identity, lp_e = lp_identity, lp_f = lp_identity\<rparr>"

definition tri_context :: Context where
  "tri_context =
     \<lparr>m_num_patches = 2, m_num_vertices = 3, m_num_edges = 3, m_num_faces = 1,
      m_patches_info = [tri_owner, tri_ribbon]\<rparr>"

text \<open>
  An LP interface for the examples: the table is indexed by the key, the low 16 bits of
  a pair are the local index in the owner patch and the high bits the stash slot.
\<close>

definition direct_lp :: LPApi where
  "direct_lp =
     \<lparr>lp_find = (\<lambda>t k. m_table t ! unat k),
      local_id_in_owner_patch = (\<lambda>pair. ucast pair),
      get_patch = (\<lambda>stash pair. stash ! unat (drop_bit 16 pair))\<rparr>"

text \<open>
  Two outcomes of a read past the end of \<open>s_ev\<close>: the read faults, or it yields the
  value \<open>v\<close> at every place.
\<close>

definition faulting :: "nat \<Rightarrow> u16 option" where
  "faulting i = None"

definition yielding :: "u16 \<Rightarrow> nat \<Rightarrow> u16 option" where
  "yielding v i = Some v"

text \<open>A ribbon-faces stage that counts no violation.\<close>

definition no_ribbon_faces :: "nat \<Rightarrow> Context \<Rightarrow> nat option" where
  "no_ribbon_faces grid_size context = Some 0"

text \<open>The mesh object of the triangle mesh, host and device in agreement.\<close>

definition tri_mesh :: RXMeshDynamic where
  "tri_mesh =
     \<lparr>m_quite = False, m_num_patches_host = 2,
      m_num_vertices_host = 3, m_num_edges_host = 3, m_num_faces_host = 1,
      m_rxmesh_context = tri_context,
      m_d_patches_info = [tri_owner, tri_ribbon],
      m_h_patches_info = [tri_owner, tri_ribbon],
      m_h_num_v = [3, 3], m_h_num_e = [3, 3], m_h_num_f = [1, 1],
      m_h_num_owned_v = [3, 0], m_h_num_owned_e = [3, 0], m_h_num_owned_f = [1, 0],
      m_h_vertex_prefix = [0, 3, 3], m_h_edge_prefix = [0, 3, 3], m_h_face_prefix = [0, 1, 1],
      m_d_num_v = [3, 3], m_d_num_e = [3, 3], m_d_num_f = [1, 1],
      m_d_num_owned_v = [3, 0], m_d_num_owned_e = [3, 0], m_d_num_owned_f = [1, 0],
      m_attr_container = []\<rparr>"

definition tri_sizes :: Sizes where
  "tri_sizes = \<lparr>patch_stash_size = 1, lp_stash_size = 1\<rparr>"

section \<open>Inputs with a defect\<close>

text \<open>
  A patch of two vertices and one edge whose second vertex index is 5: the index is out
  of range, the two indices differ, and bit 5 of the active mask of the vertices is set
  (a mask word carries bits beyond the count; the bulk \<open>set()\<close> writes all of them).
\<close>

definition stray_patch :: PatchInfo where
  "stray_patch =
     \<lparr>patch_id = 0, num_vertices = 2, num_edges = 1, num_faces = 0,
      vertices_capacity = 2, edges_capacity = 1, faces_capacity = 0,
      ev = [0, 5], fe = [],
      active_mask_v = [0xFFFFFFFF], active_mask_e = [1], active_mask_f = [],
      owned_mask_v = [3], owned_mask_e = [1], owned_mask_f = [],
      patch_stash = [0xFFFFFFFF],
      lp_v = lp_empty, lp_e = lp_empty, lp_f = lp_empty\<rparr>"

definition stray_context :: Context where
  "stray_context =
     \<lparr>m_num_patches = 1, m_num_vertices = 2, m_num_edges = 1, m_num_faces = 0,
      m_patches_info = [stray_patch]\<rparr>"

text \<open>
  The owner patch of the triangle with the third edge of its face replaced by the edge
  index 3, which is not below the edge count 3: the three edge indices 0, 1 and 3 differ
  and bit 3 of the active mask of the edges is set.
\<close>

definition loose_patch :: PatchInfo where
  "loose_patch = tri_owner\<lparr>fe := [0, 2, 6], active_mask_e := [15]\<rparr>"

definition loose_context :: Context where
  "loose_context =
     \<lparr>m_num_patches = 1, m_num_vertices = 3, m_num_edges = 3, m_num_faces = 1,
      m_patches_info = [loose_patch]\<rparr>"


text \<open>
  A patch of two triangles \<open>(0,1,2)\<close> and \<open>(0,2,3)\<close> sharing the edge 2, after the second
  triangle has been deleted: the face 1, its edges 3 and 4 and the vertex 3 have their
  active bit cleared; the patch still owns every element.
\<close>

definition cut_patch :: PatchInfo where
  "cut_patch =
     \<lparr>patch_id = 0, num_vertices = 4, num_edges = 5, num_faces = 2,
      vertices_capacity = 4, edges_capacity = 5, faces_capacity = 2,
      ev = [0, 1, 1, 2, 2, 0, 2, 3, 3, 0], fe = [0, 2, 4, 5, 6, 8],
      active_mask_v = [7], active_mask_e = [7], active_mask_f = [1],
      owned_mask_v = [15], owned_mask_e = [31], owned_mask_f = [3],
      patch_stash = [0xFFFFFFFF],
      lp_v = lp_empty, lp_e = lp_empty, lp_f = lp_empty\<rparr>"

definition cut_context :: Context where
  "cut_context =
     \<lparr>m_num_patches = 1, m_num_vertices = 3, m_num_edges = 3, m_num_faces = 1,
      m_patches_info = [cut_patch]\<rparr>"

text \<open>The triangle mesh with the context of \<open>stray_context\<close> on the device.\<close>

definition stray_mesh :: RXMeshDynamic where
  "stray_mesh = tri_mesh\<lparr>m_quite := True, m_rxmesh_context := stray_context\<rparr>"

text \<open>
  The triangle mesh with host mirrors that are out of date: the host patches are empty
  and have no capacity (the LP tables and stashes have their size), the count vectors,
  the prefix sums and the device-side summary arrays are zero.
\<close>

definition stale_patch :: "PatchInfo \<Rightarrow> PatchInfo" where
  "stale_patch d =
     d\<lparr>num_vertices := 0, num_edges := 0, num_faces := 0,
       vertices_capacity := 0, edges_capacity := 0, faces_capacity := 0,
       ev := [], fe := [],
       active_mask_v := [], active_mask_e := [], active_mask_f := [],
       owned_mask_v := [], owned_mask_e := [], owned_mask_f := [],
       patch_stash := [9],
       lp_v := (lp_v d)\<lparr>m_table := map (\<lambda>x. 9) (m_table (lp_v d)), m_stash := [9]\<rparr>,
       lp_e := (lp_e d)\<lparr>m_table := map (\<lambda>x. 9) (m_table (lp_e d)), m_stash := [9]\<rparr>,
       lp_f := (lp_f d)\<lparr>m_table := map (\<lambda>x. 9) (m_table (lp_f d)), m_stash := [9]\<rparr>\<rparr>"

definition stale_mesh :: RXMeshDynamic where
  "stale_mesh =
     tri_mesh\<lparr>m_num_vertices_host := 0, m_num_edges_host := 0, m_num_faces_host := 0,
       m_h_patches_info := [stale_patch tri_owner, stale_patch tri_ribbon],
       m_h_num_v := [0, 0], m_h_num_e := [0, 0], m_h_num_f := [0, 0],
       m_h_num_owned_v := [0, 0], m_h_num_owned_e := [0, 0], m_h_num_owned_f := [0, 0],
       m_h_vertex_prefix := [0, 0, 0], m_h_edge_prefix := [0, 0, 0],
       m_h_face_prefix := [0, 0, 0],
       m_d_num_v := [0, 0], m_d_num_e := [0, 0], m_d_num_f := [0, 0],
       m_d_num_owned_v := [0, 0], m_d_num_owned_e := [0, 0], m_d_num_owned_f := [0, 0]\<rparr>"

text \<open>The same with a device context that reports three patches, the host knowing two.\<close>

definition mismatch_mesh :: RXMeshDynamic where
  "mismatch_mesh = with_device_patches 3 stale_mesh"

section \<open>Facts about reads and counters\<close>

subsection \<open>Reads\<close>

lemma rd_Some_iff: "rd xs i = Some v \<longleftrightarrow> i < length xs \<and> v = xs ! i"
  by (auto simp: rd_def)

lemma is_set_bit_SomeD: "is_set_bit b m = Some r \<Longrightarrow> r = mask_bit m (unat b)"
  by (auto simp: is_set_bit_def mask_bit_def Let_def and_exp_eq_0_iff_not_bit split: if_splits)

lemma is_deleted_SomeD: "is_deleted b m = Some r \<Longrightarrow> r = (\<not> mask_bit m (unat b))"
  by (auto simp: is_deleted_def dest: is_set_bit_SomeD)

lemma is_owned_SomeD: "is_owned b m = Some r \<Longrightarrow> r = mask_bit m (unat b)"
  by (auto simp: is_owned_def dest: is_set_bit_SomeD)

lemma lor_SomeD:
  "lor a b = Some r \<Longrightarrow> (a = Some True \<and> r) \<or> (a = Some False \<and> b = Some r)"
  by (auto simp: lor_def split: option.splits bool.splits)



lemma incr_le: "incr c \<le> 1"
  by (simp add: incr_def)

lemma lor2_deleted:
  "lor (is_deleted a m) (is_deleted b m) = Some r \<Longrightarrow>
   r = (\<not> mask_bit m (unat a) \<or> \<not> mask_bit m (unat b))"
  by (auto dest!: lor_SomeD is_deleted_SomeD)

lemma lor3_deleted:
  "lor (is_deleted a m) (lor (is_deleted b m) (is_deleted c m)) = Some r \<Longrightarrow>
   r = (\<not> mask_bit m (unat a) \<or> \<not> mask_bit m (unat b) \<or> \<not> mask_bit m (unat c))"
  by (auto dest!: lor_SomeD is_deleted_SomeD)

subsection \<open>Sums of atomic increments\<close>

lemma atomic_sum_pos:
  "atomic_sum f xs = Some k \<Longrightarrow> (0 < k \<longleftrightarrow> (\<exists>i\<in>set xs. \<exists>a. f i = Some a \<and> 0 < a))"
  by (induction xs arbitrary: k) (auto split: option.splits)

lemma atomic_sum_defined:
  "atomic_sum f xs = Some k \<Longrightarrow> i \<in> set xs \<Longrightarrow> \<exists>a. f i = Some a"
  by (induction xs arbitrary: k) (auto split: option.splits)

lemma atomic_sum_bound:
  "atomic_sum f xs = Some k \<Longrightarrow> (\<And>i a. i \<in> set xs \<Longrightarrow> f i = Some a \<Longrightarrow> a \<le> c) \<Longrightarrow>
   k \<le> c * length xs"
proof (induction xs arbitrary: k)
  case Nil
  then show ?case by simp
next
  case (Cons x xs)
  from Cons.prems(1) obtain a b where ab: "f x = Some a" "atomic_sum f xs = Some b" "k = a + b"
    by (auto split: option.splits)
  have "a \<le> c" using Cons.prems(2) [of x a] ab by simp
  moreover have "b \<le> c * length xs"
  proof (rule Cons.IH [OF ab(2)])
    fix i a' assume "i \<in> set xs" "f i = Some a'"
    then show "a' \<le> c" using Cons.prems(2) [of i a'] by simp
  qed
  ultimately show ?case using ab by simp
qed

lemma atomic_sum_pos_iff:
  assumes "atomic_sum f xs = Some k"
    and "\<And>i a. i \<in> set xs \<Longrightarrow> f i = Some a \<Longrightarrow> (0 < a \<longleftrightarrow> P i)"
  shows "0 < k \<longleftrightarrow> (\<exists>i\<in>set xs. P i)"
proof -
  have "(\<exists>i\<in>set xs. \<exists>a. f i = Some a \<and> 0 < a) \<longleftrightarrow> (\<exists>i\<in>set xs. P i)"
    using assms(2) atomic_sum_defined [OF assms(1)] by blast
  then show ?thesis using atomic_sum_pos [OF assms(1)] by simp
qed

subsection \<open>The loops of a block\<close>

lemma atomic_sum_sum:
  "atomic_sum g ts = Some k \<Longrightarrow>
   (\<forall>t\<in>set ts. \<exists>a. g t = Some a) \<and> k = sum_list (map (\<lambda>t. the (g t)) ts)"
  by (induction ts arbitrary: k) (auto split: option.splits)

lemma u16_of_nat_less: "e < 65536 \<Longrightarrow> (word_of_nat e < (n :: u16)) \<longleftrightarrow> e < unat n"
  by (simp add: word_less_nat_alt unat_of_nat)

lemma u16_of_nat_step: "(word_of_nat e :: u16) + word_of_nat blockThreads = word_of_nat (e + 256)"
  by (simp add: blockThreads_def)

text \<open>
  A thread that returns has visited the indices \<open>e, e + 256, \<dots>\<close> below \<open>n\<close>, each once,
  without its loop variable wrapping around.
\<close>

lemma thread_for_sum:
  assumes "thread_for F (word_of_nat e) n f = Some k" "e + 256 * (F - 1) < 65536"
  shows "\<exists>m. m < F \<and> (\<forall>j<m. e + 256 * j < unat n \<and> (\<exists>a. f (e + 256 * j) = Some a)) \<and>
             unat n \<le> e + 256 * m \<and> k = (\<Sum>j<m. the (f (e + 256 * j)))"
  using assms
proof (induction F arbitrary: e k)
  case 0
  then show ?case by simp
next
  case (Suc F)
  have e: "e < 65536" using Suc.prems(2) by simp
  show ?case
  proof (cases "e < unat n")
    case False
    with Suc.prems(1) e have "k = 0" by (simp add: u16_of_nat_less)
    with False show ?thesis by (intro exI [of _ 0]) simp
  next
    case True
    with Suc.prems(1) e obtain a b where
      a: "f e = Some a" and
      b: "thread_for F (word_of_nat (e + 256)) n f = Some b" and
      k: "k = a + b"
      by (auto simp: u16_of_nat_less u16_of_nat_step unat_of_nat split: option.splits)
    from b have "F \<noteq> 0" by (cases F) auto
    with Suc.prems(2) have "(e + 256) + 256 * (F - 1) < 65536" by (cases F) auto
    from Suc.IH [OF b this] obtain m where
      m: "\<forall>j<m. e + 256 + 256 * j < unat n \<and> (\<exists>a. f (e + 256 + 256 * j) = Some a)"
         "unat n \<le> e + 256 + 256 * m" "b = (\<Sum>j<m. the (f (e + 256 + 256 * j)))" and
      mF: "m < F"
      by blast
    have "\<forall>j<Suc m. e + 256 * j < unat n \<and> (\<exists>a. f (e + 256 * j) = Some a)"
    proof (intro allI impI)
      fix j assume "j < Suc m"
      show "e + 256 * j < unat n \<and> (\<exists>a. f (e + 256 * j) = Some a)"
      proof (cases j)
        case 0
        with True a show ?thesis by simp
      next
        case (Suc i)
        with \<open>j < Suc m\<close> m(1) have "e + 256 + 256 * i < unat n \<and> (\<exists>a. f (e + 256 + 256 * i) = Some a)"
          by simp
        with Suc show ?thesis by (simp add: add.assoc)
      qed
    qed
    moreover have "unat n \<le> e + 256 * Suc m" using m(2) by simp
    moreover have "k = (\<Sum>j<Suc m. the (f (e + 256 * j)))"
      using k a m(3) sum.lessThan_Suc_shift [of "\<lambda>j. the (f (e + 256 * j))" m]
      by (simp add: add.assoc del: sum.lessThan_Suc)
    moreover have "Suc m < Suc F" using mF by simp
    ultimately show ?thesis by (intro exI [of _ "Suc m"] conjI)
  qed
qed


lemma div_less_of_bound:
  assumes "n \<le> i mod 256 + 256 * m" "i < n"
  shows "i div 256 < (m::nat)"
proof (rule ccontr)
  assume "\<not> i div 256 < m"
  then have "m \<le> i div 256" by (rule leI)
  then have "256 * m \<le> 256 * (i div 256)" by (rule mult_le_mono2)
  then have "i mod 256 + 256 * m \<le> i mod 256 + 256 * (i div 256)" by (rule add_left_mono)
  also have "\<dots> = i" by (rule mod_mult_div_eq)
  finally show False using assms by simp
qed

lemma block_for_sum:
  assumes "block_for n f = Some k"
  shows "(\<forall>i < unat n. \<exists>a. f i = Some a) \<and> k = (\<Sum>i < unat n. the (f i)) \<and> unat n \<le> 65280"
proof -
  let ?g = "\<lambda>t. thread_for 256 (word_of_nat t) n f"
  let ?Q = "\<lambda>t m. m < 256 \<and> (\<forall>j<m. t + 256 * j < unat n \<and> (\<exists>a. f (t + 256 * j) = Some a)) \<and>
             unat n \<le> t + 256 * m \<and> the (?g t) = (\<Sum>j<m. the (f (t + 256 * j)))"
  from assms have s: "atomic_sum ?g [0..<256] = Some k"
    by (simp add: block_for_def blockThreads_def)
  from atomic_sum_sum [OF s] have
    d: "\<forall>t<256. \<exists>a. ?g t = Some a" and
    k: "k = (\<Sum>t<256. the (?g t))"
    by (auto simp: interv_sum_list_conv_sum_set_nat atLeast0LessThan)
  have "\<forall>t\<in>{..<256}. \<exists>m. ?Q t m"
  proof
    fix t :: nat assume "t \<in> {..<256}"
    then have t: "t < 256" by simp
    with d obtain a where a: "?g t = Some a" by blast
    from t have "t + 256 * (256 - 1) < 65536" by simp
    from thread_for_sum [OF a this] obtain m where
      "m < 256" "\<forall>j<m. t + 256 * j < unat n \<and> (\<exists>a. f (t + 256 * j) = Some a)"
      "unat n \<le> t + 256 * m" "a = (\<Sum>j<m. the (f (t + 256 * j)))"
      by blast
    with a have "?Q t m" by simp
    then show "\<exists>m. ?Q t m" ..
  qed
  from bchoice [OF this] obtain M where M: "\<forall>t\<in>{..<256}. ?Q t (M t)" ..
  have Mb: "M t < 256" and Mj: "\<And>j. j < M t \<Longrightarrow> t + 256 * j < unat n"
    and Md: "\<And>j. j < M t \<Longrightarrow> \<exists>a. f (t + 256 * j) = Some a"
    and Mn: "unat n \<le> t + 256 * M t"
    and Ms: "the (?g t) = (\<Sum>j<M t. the (f (t + 256 * j)))" if "t < 256" for t
    using M that by simp_all
  have idx: "i div 256 < M (i mod 256)" if "i < unat n" for i
    using Mn [of "i mod 256"] that by (intro div_less_of_bound [of "unat n"]) simp_all
  have def: "\<forall>i < unat n. \<exists>a. f i = Some a"
  proof (intro allI impI)
    fix i assume i: "i < unat n"
    have "\<exists>a. f (i mod 256 + 256 * (i div 256)) = Some a"
      by (rule Md) (simp_all add: idx [OF i])
    then show "\<exists>a. f i = Some a" by simp
  qed
  have "k = (\<Sum>t<256. \<Sum>j<M t. the (f (t + 256 * j)))"
    unfolding k by (rule sum.cong) (simp_all add: Ms)
  also have "\<dots> = (\<Sum>(t, j) \<in> (SIGMA t:{..<256}. {..<M t}). the (f (t + 256 * j)))"
    by (simp add: sum.Sigma)
  also have "\<dots> = (\<Sum>i < unat n. the (f i))"
  proof (rule sum.reindex_bij_witness [where i = "\<lambda>i. (i mod 256, i div 256)"
        and j = "\<lambda>(t, j). t + 256 * j"])
    fix a assume "a \<in> (SIGMA t:{..<256}. {..<M t})"
    then show "(case a of (t, j) \<Rightarrow> t + 256 * j) \<in> {..<unat n}" using Mj by auto
  next
    fix a assume "a \<in> (SIGMA t:{..<256}. {..<M t})"
    then show "((case a of (t, j) \<Rightarrow> t + 256 * j) mod 256, (case a of (t, j) \<Rightarrow> t + 256 * j) div 256) = a"
      by auto
  next
    fix i assume "i \<in> {..<unat n}"
    then show "(i mod 256, i div 256) \<in> (SIGMA t:{..<256}. {..<M t})"
      using idx by simp
  qed auto
  finally have sum: "k = (\<Sum>i < unat n. the (f i))" .
  from Mb [of 0] Mn [of 0] have "unat n \<le> 65280" by simp
  with sum def show ?thesis by simp
qed

lemma block_for_pos_iff:
  assumes "block_for n f = Some k"
    and "\<And>i a. i < unat n \<Longrightarrow> f i = Some a \<Longrightarrow> (0 < a \<longleftrightarrow> P i)"
  shows "0 < k \<longleftrightarrow> (\<exists>i < unat n. P i)"
proof -
  from block_for_sum [OF assms(1)] have
    d: "\<forall>i < unat n. \<exists>a. f i = Some a" and k: "k = (\<Sum>i < unat n. the (f i))"
    by simp_all
  have z: "(k = 0) = (\<forall>i < unat n. the (f i) = 0)"
    unfolding k by (auto simp: sum_eq_0_iff simp del: sum.lessThan_Suc)
  have p: "0 < the (f i) \<longleftrightarrow> P i" if "i < unat n" for i
  proof -
    from d that obtain a where a: "f i = Some a" by blast
    with assms(2) [OF that a] show ?thesis by simp
  qed
  have "0 < k \<longleftrightarrow> (\<exists>i < unat n. 0 < the (f i))" using z by auto
  also have "\<dots> \<longleftrightarrow> (\<exists>i < unat n. P i)" using p by blast
  finally show ?thesis .
qed

lemma block_for_bound:
  assumes "block_for n f = Some k" and "\<And>i a. i < unat n \<Longrightarrow> f i = Some a \<Longrightarrow> a \<le> c"
  shows "k \<le> c * unat n"
proof -
  from block_for_sum [OF assms(1)] have
    d: "\<forall>i < unat n. \<exists>a. f i = Some a" and k: "k = (\<Sum>i < unat n. the (f i))"
    by simp_all
  have "(\<Sum>i < unat n. the (f i)) \<le> of_nat (card {..<unat n}) * c"
  proof (rule sum_bounded_above)
    fix i assume "i \<in> {..<unat n}"
    then have i: "i < unat n" by simp
    with d obtain a where a: "f i = Some a" by blast
    with assms(2) [OF i a] show "the (f i) \<le> c" by simp
  qed
  with k show ?thesis by (simp add: mult.commute)
qed

text \<open>
  Conversely the block returns when every step is defined and \<open>n \<le> 65280\<close>; above that
  bound the loop variable of thread 0 wraps around before it reaches \<open>n\<close>.
\<close>

lemma atomic_sum_total:
  "(\<And>t. t \<in> set ts \<Longrightarrow> \<exists>a. g t = Some a) \<Longrightarrow> \<exists>k. atomic_sum g ts = Some k"
proof (induction ts)
  case Nil
  then show ?case by simp
next
  case (Cons t ts)
  from Cons.prems [of t] obtain a where a: "g t = Some a" by auto
  have "\<exists>k. atomic_sum g ts = Some k"
  proof (rule Cons.IH)
    fix u assume "u \<in> set ts"
    then show "\<exists>a. g u = Some a" using Cons.prems [of u] by simp
  qed
  then obtain b where "atomic_sum g ts = Some b" ..
  with a show ?case by simp
qed

lemma thread_for_total:
  assumes "\<And>i. i < unat n \<Longrightarrow> \<exists>a. f i = Some a" "unat n \<le> e + 256 * F" "e + 256 * F < 65536"
  shows "\<exists>k. thread_for (Suc F) (word_of_nat e) n f = Some k"
  using assms(2,3)
proof (induction F arbitrary: e)
  case 0
  then show ?case by (simp add: u16_of_nat_less)
next
  case (Suc F)
  have e: "e < 65536" using Suc.prems(2) by simp
  show ?case
  proof (cases "e < unat n")
    case False
    with e show ?thesis by (simp add: u16_of_nat_less)
  next
    case True
    from assms(1) [OF True] obtain a where a: "f e = Some a" ..
    have "\<exists>k. thread_for (Suc F) (word_of_nat (e + 256)) n f = Some k"
      using Suc.prems by (intro Suc.IH) simp_all
    then obtain b where b: "thread_for (Suc F) (word_of_nat (e + 256)) n f = Some b" ..
    have "thread_for (Suc (Suc F)) (word_of_nat e) n f = Some (a + b)"
      using True e a b
      by (simp add: u16_of_nat_less u16_of_nat_step unat_of_nat del: thread_for.simps(2))
         (simp add: thread_for.simps(2) [of "Suc F"] u16_of_nat_less u16_of_nat_step unat_of_nat
                 del: thread_for.simps(2))
    then show ?thesis ..
  qed
qed

lemma block_for_total:
  assumes "\<And>i. i < unat n \<Longrightarrow> \<exists>a. f i = Some a" "unat n \<le> 65280"
  shows "\<exists>k. block_for n f = Some k"
  unfolding block_for_def
proof (rule atomic_sum_total)
  fix t assume "t \<in> set [0..<blockThreads]"
  then have t: "t < 256" by (simp add: blockThreads_def)
  have "\<exists>k. thread_for (Suc 255) (word_of_nat t) n f = Some k"
    using assms(2) t by (intro thread_for_total assms(1)) simp_all
  then show "\<exists>a. thread_for 256 (word_of_nat t) n f = Some a" by simp
qed

text \<open>
  So a block loop is the sum over the indices below \<open>n\<close>, provided \<open>n \<le> 65280\<close>.
\<close>

lemma block_for_closed:
  "block_for n f = (if unat n \<le> 65280 then atomic_sum f [0..<unat n] else None)"
proof (cases "block_for n f")
  case (Some k)
  from block_for_sum [OF Some] have
    d: "\<And>i. i < unat n \<Longrightarrow> \<exists>a. f i = Some a" and k: "k = (\<Sum>i < unat n. the (f i))"
    and n: "unat n \<le> 65280"
    by simp_all
  have "\<exists>j. atomic_sum f [0..<unat n] = Some j"
    by (rule atomic_sum_total) (simp add: d)
  then obtain j where j: "atomic_sum f [0..<unat n] = Some j" ..
  from atomic_sum_sum [OF j] have "j = (\<Sum>i < unat n. the (f i))"
    by (simp add: interv_sum_list_conv_sum_set_nat atLeast0LessThan)
  with k j n Some show ?thesis by simp
next
  case None
  show ?thesis
  proof (cases "unat n \<le> 65280")
    case False
    with None show ?thesis by simp
  next
    case True
    have "atomic_sum f [0..<unat n] = None"
    proof (rule ccontr)
      assume "atomic_sum f [0..<unat n] \<noteq> None"
      then obtain j where j: "atomic_sum f [0..<unat n] = Some j" by auto
      have "\<exists>k. block_for n f = Some k"
      proof (rule block_for_total [OF _ True])
        fix i assume "i < unat n"
        then show "\<exists>a. f i = Some a" using atomic_sum_defined [OF j, of i] by simp
      qed
      with None show False by simp
    qed
    with None True show ?thesis by simp
  qed
qed

lemma block_for_code [code]:
  "block_for n f = (if n \<le> 65280 then atomic_sum f [0..<unat n] else None)"
  by (simp add: block_for_closed word_le_nat_alt)

subsection \<open>The blocks of a launch\<close>

lemma launch_pos_iff:
  assumes "launch g ctx blk = Some k"
    and "\<And>p a. p < g \<Longrightarrow> p < unat (m_num_patches ctx) \<Longrightarrow> p < length (m_patches_info ctx) \<Longrightarrow>
           blk p (m_patches_info ctx ! p) = Some a \<Longrightarrow> (0 < a \<longleftrightarrow> P p)"
  shows "0 < k \<longleftrightarrow> (\<exists>p<g. p < unat (m_num_patches ctx) \<and> P p)"
proof -
  let ?f = "\<lambda>p. if p < unat (m_num_patches ctx)
        then (case rd (m_patches_info ctx) p of None \<Rightarrow> None | Some pinfo \<Rightarrow> blk p pinfo)
        else Some 0"
  have s: "atomic_sum ?f [0..<g] = Some k" using assms(1) by (simp add: launch_def)
  have "0 < k \<longleftrightarrow> (\<exists>p\<in>set [0..<g]. p < unat (m_num_patches ctx) \<and> P p)"
  proof (rule atomic_sum_pos_iff [OF s])
    fix p a assume "p \<in> set [0..<g]" "?f p = Some a"
    then show "0 < a \<longleftrightarrow> p < unat (m_num_patches ctx) \<and> P p"
      using assms(2) [of p a] by (auto simp: rd_Some_iff split: if_splits option.splits)
  qed
  then show ?thesis by auto
qed

lemma launch_bound:
  assumes "launch g ctx blk = Some k"
    and "\<And>p a. p < length (m_patches_info ctx) \<Longrightarrow> blk p (m_patches_info ctx ! p) = Some a \<Longrightarrow> a \<le> c"
  shows "k \<le> c * g"
proof -
  let ?f = "\<lambda>p. if p < unat (m_num_patches ctx)
        then (case rd (m_patches_info ctx) p of None \<Rightarrow> None | Some pinfo \<Rightarrow> blk p pinfo)
        else Some 0"
  have s: "atomic_sum ?f [0..<g] = Some k" using assms(1) by (simp add: launch_def)
  have "k \<le> c * length [0..<g]"
  proof (rule atomic_sum_bound [OF s])
    fix p a assume "p \<in> set [0..<g]" "?f p = Some a"
    then show "a \<le> c"
      using assms(2) [of p a] by (auto simp: rd_Some_iff split: if_splits option.splits)
  qed
  then show ?thesis by simp
qed

subsection \<open>The 64-bit counter\<close>

lemma is_okay_after_kernel:
  "n < 2 ^ 64 \<Longrightarrow> is_okay (after_kernel 0 n) \<longleftrightarrow> n = 0"
  by (cases "n = 0") (auto simp: is_okay_def after_kernel_def Let_def word_of_nat_eq_0_iff dest: dvd_imp_le)

section \<open>The uniqueness check\<close>

subsection \<open>What an iteration counts\<close>

lemma uniqueness_edge_pos:
  assumes "uniqueness_edge pinfo (take n (ev pinfo)) e = Some a" "e < 65536"
  shows "0 < a \<longleftrightarrow> active_e pinfo (word_of_nat e) \<and>
           (edge_not_unique pinfo e \<or> edge_out_of_range pinfo e)"
  using assms
  unfolding uniqueness_edge_def edge_out_of_range_def edge_not_unique_def active_e_def
    active_v_def edge_vertex_def
  by (auto simp: rd_Some_iff incr_def Let_def unat_of_nat
      split: Option.bind_splits if_splits dest!: is_deleted_SomeD lor_SomeD)

lemma unat_dir_le: "unat (snd (unpack_edge_dir x)) \<le> 1"
  by (cases "odd x") (simp_all add: unpack_edge_dir_def and_one_eq mod_2_eq_odd)

lemma rd_past_in: "i < length s \<Longrightarrow> rd_past past s i = rd s i"
  by (simp add: rd_past_def rd_def)

lemma edge_read_in:
  assumes "fst (unpack_edge_dir x) < n" "2 * unat n \<le> length xs"
  shows "2 * unat (fst (unpack_edge_dir x)) + unat (snd (unpack_edge_dir x)) <
         length (take (2 * unat n) xs)"
proof -
  from assms(1) have "unat (fst (unpack_edge_dir x)) < unat n" by (simp add: word_less_nat_alt)
  with unat_dir_le [of x] assms(2) show ?thesis by simp
qed

lemma uniqueness_face_unfold:
  "uniqueness_face past pinfo s_ev s_fe f =
     (case is_deleted (word_of_nat f) (active_mask_f pinfo) of None \<Rightarrow> None
      | Some True \<Rightarrow> Some 0
      | Some False \<Rightarrow>
     (case rd s_fe (3 * f) of None \<Rightarrow> None | Some x0 \<Rightarrow>
     (case rd s_fe (3 * f + 1) of None \<Rightarrow> None | Some x1 \<Rightarrow>
     (case rd s_fe (3 * f + 2) of None \<Rightarrow> None | Some x2 \<Rightarrow>
     (case lor (is_deleted (fst (unpack_edge_dir x0)) (active_mask_e pinfo))
              (lor (is_deleted (fst (unpack_edge_dir x1)) (active_mask_e pinfo))
                   (is_deleted (fst (unpack_edge_dir x2)) (active_mask_e pinfo))) of
        None \<Rightarrow> None | Some c2 \<Rightarrow>
     (case rd_past past s_ev (2 * unat (fst (unpack_edge_dir x0)) + unat (snd (unpack_edge_dir x0))) of
        None \<Rightarrow> None | Some v0 \<Rightarrow>
     (case rd_past past s_ev (2 * unat (fst (unpack_edge_dir x1)) + unat (snd (unpack_edge_dir x1))) of
        None \<Rightarrow> None | Some v1 \<Rightarrow>
     (case rd_past past s_ev (2 * unat (fst (unpack_edge_dir x2)) + unat (snd (unpack_edge_dir x2))) of
        None \<Rightarrow> None | Some v2 \<Rightarrow>
     (case lor (is_deleted v0 (active_mask_v pinfo))
              (lor (is_deleted v1 (active_mask_v pinfo)) (is_deleted v2 (active_mask_v pinfo))) of
        None \<Rightarrow> None | Some c4 \<Rightarrow>
        Some (incr (fst (unpack_edge_dir x0) \<ge> num_edges pinfo \<or>
                    fst (unpack_edge_dir x1) \<ge> num_edges pinfo \<or>
                    fst (unpack_edge_dir x2) \<ge> num_edges pinfo \<or>
                    fst (unpack_edge_dir x0) = fst (unpack_edge_dir x1) \<or>
                    fst (unpack_edge_dir x0) = fst (unpack_edge_dir x2) \<or>
                    fst (unpack_edge_dir x1) = fst (unpack_edge_dir x2)) +
              incr c2 +
              incr (v0 \<ge> num_vertices pinfo \<or> v1 \<ge> num_vertices pinfo \<or>
                    v2 \<ge> num_vertices pinfo \<or> v0 = v1 \<or> v0 = v2 \<or> v1 = v2) +
              incr c4))))))))))"
  unfolding uniqueness_face_def
  by (simp add: Let_def case_prod_beta split: option.splits bool.splits)


lemma uniqueness_face_pos:
  assumes a: "uniqueness_face past pinfo (take (2 * unat (num_edges pinfo)) (ev pinfo))
                (take m (fe pinfo)) f = Some a"
    and f: "f < 65536" and len: "2 * unat (num_edges pinfo) \<le> length (ev pinfo)"
  shows "0 < a \<longleftrightarrow> active_f pinfo (word_of_nat f) \<and>
           (face_not_unique pinfo f \<or> face_edge_out_of_range pinfo f \<or>
            face_vertex_out_of_range pinfo f)"
proof (cases "active_f pinfo (word_of_nat f)")
  case False
  with a show ?thesis
    by (auto simp: uniqueness_face_unfold active_f_def split: option.splits bool.splits
        dest!: is_deleted_SomeD)
next
  case True
  let ?s_ev = "take (2 * unat (num_edges pinfo)) (ev pinfo)"
  let ?e = "\<lambda>k. face_edge pinfo f k"
  let ?d = "\<lambda>k. face_dir pinfo f k"
  from a obtain r where "is_deleted (word_of_nat f) (active_mask_f pinfo) = Some r"
    by (auto simp: uniqueness_face_unfold split: option.splits)
  with True have del: "is_deleted (word_of_nat f) (active_mask_f pinfo) = Some False"
    by (auto simp: active_f_def dest: is_deleted_SomeD)
  from a del obtain x0 x1 x2 c2 v0 v1 v2 c4 where
    x: "rd (take m (fe pinfo)) (3 * f) = Some x0" "rd (take m (fe pinfo)) (3 * f + 1) = Some x1"
       "rd (take m (fe pinfo)) (3 * f + 2) = Some x2" and
    c2: "lor (is_deleted (fst (unpack_edge_dir x0)) (active_mask_e pinfo))
           (lor (is_deleted (fst (unpack_edge_dir x1)) (active_mask_e pinfo))
                (is_deleted (fst (unpack_edge_dir x2)) (active_mask_e pinfo))) = Some c2" and
    v0: "rd_past past ?s_ev
           (2 * unat (fst (unpack_edge_dir x0)) + unat (snd (unpack_edge_dir x0))) = Some v0" and
    v1: "rd_past past ?s_ev
           (2 * unat (fst (unpack_edge_dir x1)) + unat (snd (unpack_edge_dir x1))) = Some v1" and
    v2: "rd_past past ?s_ev
           (2 * unat (fst (unpack_edge_dir x2)) + unat (snd (unpack_edge_dir x2))) = Some v2" and
    c4: "lor (is_deleted v0 (active_mask_v pinfo))
           (lor (is_deleted v1 (active_mask_v pinfo)) (is_deleted v2 (active_mask_v pinfo))) =
         Some c4" and
    sum: "a = incr (fst (unpack_edge_dir x0) \<ge> num_edges pinfo \<or>
                    fst (unpack_edge_dir x1) \<ge> num_edges pinfo \<or>
                    fst (unpack_edge_dir x2) \<ge> num_edges pinfo \<or>
                    fst (unpack_edge_dir x0) = fst (unpack_edge_dir x1) \<or>
                    fst (unpack_edge_dir x0) = fst (unpack_edge_dir x2) \<or>
                    fst (unpack_edge_dir x1) = fst (unpack_edge_dir x2)) +
              incr c2 +
              incr (v0 \<ge> num_vertices pinfo \<or> v1 \<ge> num_vertices pinfo \<or>
                    v2 \<ge> num_vertices pinfo \<or> v0 = v1 \<or> v0 = v2 \<or> v1 = v2) +
              incr c4"
    by (auto simp: uniqueness_face_unfold split: option.splits)
  from x have e: "fst (unpack_edge_dir x0) = ?e 0" "fst (unpack_edge_dir x1) = ?e 1"
      "fst (unpack_edge_dir x2) = ?e 2"
    and d: "snd (unpack_edge_dir x0) = ?d 0" "snd (unpack_edge_dir x1) = ?d 1"
      "snd (unpack_edge_dir x2) = ?d 2"
    by (simp_all add: rd_Some_iff face_edge_def face_dir_def)
  have c2': "c2 = (\<not> active_e pinfo (?e 0) \<or> \<not> active_e pinfo (?e 1) \<or> \<not> active_e pinfo (?e 2))"
    using lor3_deleted [OF c2] by (simp add: e active_e_def)
  have c4': "c4 = (\<not> active_v pinfo v0 \<or> \<not> active_v pinfo v1 \<or> \<not> active_v pinfo v2)"
    using lor3_deleted [OF c4] by (simp add: active_v_def)
  show ?thesis
  proof (cases "face_edge_out_of_range pinfo f")
    case oor: True
    then have "0 < a" unfolding sum e by (auto simp: face_edge_out_of_range_def incr_def)
    with True oor show ?thesis by simp
  next
    case inr: False
    then have lt: "?e 0 < num_edges pinfo" "?e 1 < num_edges pinfo" "?e 2 < num_edges pinfo"
      by (simp_all add: face_edge_out_of_range_def not_le)
    have i0: "2 * unat (fst (unpack_edge_dir x0)) + unat (snd (unpack_edge_dir x0)) < length ?s_ev"
      using lt(1) len unfolding e [symmetric] by (rule edge_read_in)
    have i1: "2 * unat (fst (unpack_edge_dir x1)) + unat (snd (unpack_edge_dir x1)) < length ?s_ev"
      using lt(2) len unfolding e [symmetric] by (rule edge_read_in)
    have i2: "2 * unat (fst (unpack_edge_dir x2)) + unat (snd (unpack_edge_dir x2)) < length ?s_ev"
      using lt(3) len unfolding e [symmetric] by (rule edge_read_in)
    have v: "v0 = face_vertex pinfo f 0" "v1 = face_vertex pinfo f 1" "v2 = face_vertex pinfo f 2"
      using v0 v1 v2 i0 i1 i2
      by (simp_all add: rd_past_in rd_Some_iff face_vertex_def e d)
    have "0 < a \<longleftrightarrow> face_not_unique pinfo f \<or> face_vertex_out_of_range pinfo f"
      unfolding sum e c2' c4' v face_not_unique_def face_vertex_out_of_range_def
      using lt by (auto simp: incr_def Let_def)
    with True inr show ?thesis by simp
  qed
qed


lemma incr4_le: "incr a + incr b + incr c + incr d \<le> 4"
  by (simp add: incr_def)

lemma uniqueness_face_le:
  "uniqueness_face past pinfo s_ev s_fe f = Some a \<Longrightarrow> a \<le> 4"
  by (auto simp: uniqueness_face_unfold incr4_le split: option.splits bool.splits)

lemma unat_u16_less: "unat (w :: u16) < 65536"
  using unsigned_less [of w, where ?'a = nat] by simp

subsection \<open>When the kernel returns\<close>

lemma is_deleted_total: "mask_has m b \<Longrightarrow> \<exists>r. is_deleted b m = Some r"
  by (simp add: mask_has_def is_deleted_def is_set_bit_def Let_def)

lemma lor_total: "\<exists>r. a = Some r \<Longrightarrow> \<exists>r. b = Some r \<Longrightarrow> \<exists>r. lor a b = Some r"
  by (auto simp: lor_def split: bool.splits)

lemma lor3_total:
  assumes "mask_has m a" "mask_has m b" "mask_has m c"
  shows "\<exists>r. lor (is_deleted a m) (lor (is_deleted b m) (is_deleted c m)) = Some r"
  by (intro lor_total is_deleted_total assms)

lemma mask_has_index:
  assumes "i < unat (n :: u16)" "unat n \<le> 32 * length m"
  shows "mask_has m (word_of_nat i :: u16)"
proof -
  from assms(1) unat_u16_less [of n] have "unat (word_of_nat i :: u16) = i"
    by (simp add: unat_of_nat)
  moreover from assms have "i div 32 < length m" by (simp add: less_mult_imp_div_less mult.commute)
  ultimately show ?thesis by (simp add: mask_has_def)
qed

lemma list_all_takeD:
  "list_all P (take n xs) \<Longrightarrow> i < n \<Longrightarrow> n \<le> length xs \<Longrightarrow> P (xs ! i)"
  by (auto simp: list_all_length)

lemma uniqueness_edge_total:
  assumes r: "patch_readable pinfo" and e: "e < unat (num_edges pinfo)"
  shows "\<exists>a. uniqueness_edge pinfo (take (2 * unat (num_edges pinfo)) (ev pinfo)) e = Some a"
proof -
  let ?n = "2 * unat (num_edges pinfo)"
  from r have len: "?n \<le> length (ev pinfo)"
    and me: "unat (num_edges pinfo) \<le> 32 * length (active_mask_e pinfo)"
    and vs: "list_all (mask_has (active_mask_v pinfo)) (take ?n (ev pinfo))"
    by (simp_all add: patch_readable_def)
  from e len have r0: "rd (take ?n (ev pinfo)) (2 * e + 0) = Some (ev pinfo ! (2 * e))"
    and r1: "rd (take ?n (ev pinfo)) (2 * e + 1) = Some (ev pinfo ! (2 * e + 1))"
    by (simp_all add: rd_def)
  from is_deleted_total [OF mask_has_index [OF e me]] obtain del where
    del: "is_deleted (word_of_nat e) (active_mask_e pinfo) = Some del" ..
  have "mask_has (active_mask_v pinfo) (ev pinfo ! (2 * e))"
    using e len by (intro list_all_takeD [OF vs]) simp_all
  moreover have "mask_has (active_mask_v pinfo) (ev pinfo ! (2 * e + 1))"
    using e len by (intro list_all_takeD [OF vs]) simp_all
  ultimately obtain c2 where
    c2: "lor (is_deleted (ev pinfo ! (2 * e)) (active_mask_v pinfo))
           (is_deleted (ev pinfo ! (2 * e + 1)) (active_mask_v pinfo)) = Some c2"
    using lor_total [OF is_deleted_total is_deleted_total] by blast
  show ?thesis
    unfolding uniqueness_edge_def using r0 r1 del c2 by (simp add: Let_def)
qed

lemma rd_past_total:
  assumes "list_all (mask_has m) s" "past_readable past pinfo" "m = active_mask_v pinfo"
  shows "\<exists>v. rd_past past s i = Some v \<and> mask_has m v"
proof (cases "i < length s")
  case True
  with assms(1) show ?thesis by (simp add: rd_past_def list_all_length)
next
  case False
  with assms(2,3) show ?thesis by (simp add: rd_past_def past_readable_def)
qed

lemma uniqueness_face_total:
  assumes r: "patch_readable pinfo" and p: "past_readable past pinfo"
    and f: "f < unat (num_faces pinfo)"
  shows "\<exists>a. uniqueness_face past pinfo (take (2 * unat (num_edges pinfo)) (ev pinfo))
               (take (3 * unat (num_faces pinfo)) (fe pinfo)) f = Some a"
proof -
  let ?n = "2 * unat (num_edges pinfo)" and ?m = "3 * unat (num_faces pinfo)"
  let ?x = "\<lambda>k. fe pinfo ! (3 * f + k)"
  from r have len: "?m \<le> length (fe pinfo)"
    and mf: "unat (num_faces pinfo) \<le> 32 * length (active_mask_f pinfo)"
    and vs: "list_all (mask_has (active_mask_v pinfo)) (take ?n (ev pinfo))"
    and es: "list_all (\<lambda>x. mask_has (active_mask_e pinfo) (fst (unpack_edge_dir x)))
               (take ?m (fe pinfo))"
    by (simp_all add: patch_readable_def)
  from is_deleted_total [OF mask_has_index [OF f mf]] obtain del where
    del: "is_deleted (word_of_nat f) (active_mask_f pinfo) = Some del" ..
  from f len have x: "rd (take ?m (fe pinfo)) (3 * f) = Some (?x 0)"
      "rd (take ?m (fe pinfo)) (3 * f + 1) = Some (?x 1)"
      "rd (take ?m (fe pinfo)) (3 * f + 2) = Some (?x 2)"
    by (simp_all add: rd_def)
  have h: "mask_has (active_mask_e pinfo) (fst (unpack_edge_dir (?x k)))" if "k < 3" for k
    using f len that by (intro list_all_takeD [OF es]) simp_all
  from lor3_total [OF h [of 0] h [of 1] h [of 2]] obtain c2 where
    c2: "lor (is_deleted (fst (unpack_edge_dir (?x 0))) (active_mask_e pinfo))
           (lor (is_deleted (fst (unpack_edge_dir (?x 1))) (active_mask_e pinfo))
                (is_deleted (fst (unpack_edge_dir (?x 2))) (active_mask_e pinfo))) = Some c2"
    by auto
  from rd_past_total [OF vs p refl] obtain v0 where
    v0: "rd_past past (take ?n (ev pinfo))
           (2 * unat (fst (unpack_edge_dir (?x 0))) + unat (snd (unpack_edge_dir (?x 0)))) = Some v0"
        "mask_has (active_mask_v pinfo) v0" by blast
  from rd_past_total [OF vs p refl] obtain v1 where
    v1: "rd_past past (take ?n (ev pinfo))
           (2 * unat (fst (unpack_edge_dir (?x 1))) + unat (snd (unpack_edge_dir (?x 1)))) = Some v1"
        "mask_has (active_mask_v pinfo) v1" by blast
  from rd_past_total [OF vs p refl] obtain v2 where
    v2: "rd_past past (take ?n (ev pinfo))
           (2 * unat (fst (unpack_edge_dir (?x 2))) + unat (snd (unpack_edge_dir (?x 2)))) = Some v2"
        "mask_has (active_mask_v pinfo) v2" by blast
  from lor3_total [OF v0(2) v1(2) v2(2)] obtain c4 where
    c4: "lor (is_deleted v0 (active_mask_v pinfo))
           (lor (is_deleted v1 (active_mask_v pinfo)) (is_deleted v2 (active_mask_v pinfo))) =
         Some c4" ..
  show ?thesis
    unfolding uniqueness_face_unfold using del x c2 v0(1) v1(1) v2(1) c4
    by (simp split: bool.splits)
qed


lemma check_uniqueness_block_total:
  assumes r: "patch_readable pinfo" and p: "past_readable past pinfo"
  shows "\<exists>a. check_uniqueness_block past p_id pinfo = Some a"
proof -
  let ?s_ev = "take (2 * unat (num_edges pinfo)) (ev pinfo)"
  let ?s_fe = "take (3 * unat (num_faces pinfo)) (fe pinfo)"
  from r have l: "load_async (ev pinfo) (2 * unat (num_edges pinfo)) = Some ?s_ev"
      "load_async (fe pinfo) (3 * unat (num_faces pinfo)) = Some ?s_fe"
    and n: "unat (num_edges pinfo) \<le> 65280" "unat (num_faces pinfo) \<le> 65280"
    by (simp_all add: patch_readable_def load_async_def word_le_nat_alt)
  have "\<exists>x. block_for (num_edges pinfo) (uniqueness_edge pinfo ?s_ev) = Some x"
    by (rule block_for_total [OF uniqueness_edge_total [OF r] n(1)])
  then obtain x where x: "block_for (num_edges pinfo) (uniqueness_edge pinfo ?s_ev) = Some x" ..
  have "\<exists>y. block_for (num_faces pinfo) (uniqueness_face past pinfo ?s_ev ?s_fe) = Some y"
    by (rule block_for_total [OF uniqueness_face_total [OF r p] n(2)])
  then obtain y where
    y: "block_for (num_faces pinfo) (uniqueness_face past pinfo ?s_ev ?s_fe) = Some y" ..
  show ?thesis by (simp add: check_uniqueness_block_def l x y)
qed

lemma launch_total:
  assumes "unat (m_num_patches ctx) \<le> length (m_patches_info ctx)"
    and "\<And>p. p < unat (m_num_patches ctx) \<Longrightarrow> \<exists>a. blk p (m_patches_info ctx ! p) = Some a"
  shows "\<exists>k. launch g ctx blk = Some k"
  unfolding launch_def
proof (rule atomic_sum_total)
  fix p assume "p \<in> set [0..<g]"
  show "\<exists>a. (if p < unat (m_num_patches ctx)
              then case rd (m_patches_info ctx) p of None \<Rightarrow> None
                   | Some patch_info \<Rightarrow> blk p patch_info
              else Some 0) = Some a"
    using assms(1) assms(2) [of p] by (auto simp: rd_def)
qed

lemma load_async_Some: "load_async src n = Some s \<longleftrightarrow> n \<le> length src \<and> s = take n src"
  by (auto simp: load_async_def)

lemma check_uniqueness_block_pos:
  assumes "check_uniqueness_block past p pinfo = Some a"
  shows "0 < a \<longleftrightarrow> patch_not_unique pinfo \<or> patch_out_of_range pinfo"
proof -
  from assms obtain x y where
    len: "2 * unat (num_edges pinfo) \<le> length (ev pinfo)" and
    x: "block_for (num_edges pinfo)
          (uniqueness_edge pinfo (take (2 * unat (num_edges pinfo)) (ev pinfo))) = Some x" and
    y: "block_for (num_faces pinfo)
          (uniqueness_face past pinfo (take (2 * unat (num_edges pinfo)) (ev pinfo))
             (take (3 * unat (num_faces pinfo)) (fe pinfo))) = Some y" and
    a: "a = x + y"
    by (auto simp: check_uniqueness_block_def bind_eq_Some_conv load_async_Some)
  have "0 < x \<longleftrightarrow> (\<exists>e < unat (num_edges pinfo). active_e pinfo (word_of_nat e) \<and>
           (edge_not_unique pinfo e \<or> edge_out_of_range pinfo e))"
    by (rule block_for_pos_iff [OF x], rule uniqueness_edge_pos)
      (use unat_u16_less [of "num_edges pinfo"] in auto)
  moreover have "0 < y \<longleftrightarrow> (\<exists>f < unat (num_faces pinfo). active_f pinfo (word_of_nat f) \<and>
           (face_not_unique pinfo f \<or> face_edge_out_of_range pinfo f \<or>
            face_vertex_out_of_range pinfo f))"
  proof (rule block_for_pos_iff [OF y])
    fix f a
    assume "f < unat (num_faces pinfo)"
      and "uniqueness_face past pinfo (take (2 * unat (num_edges pinfo)) (ev pinfo))
             (take (3 * unat (num_faces pinfo)) (fe pinfo)) f = Some a"
    then show "0 < a \<longleftrightarrow> active_f pinfo (word_of_nat f) \<and>
           (face_not_unique pinfo f \<or> face_edge_out_of_range pinfo f \<or>
            face_vertex_out_of_range pinfo f)"
      using unat_u16_less [of "num_faces pinfo"] len by (intro uniqueness_face_pos) simp_all
  qed
  ultimately show ?thesis
    unfolding a patch_not_unique_def patch_out_of_range_def by (auto simp: Bex_def)
qed

lemma uniqueness_edge_le:
  "uniqueness_edge pinfo s_ev e = Some a \<Longrightarrow> a \<le> 2"
  unfolding uniqueness_edge_def
  by (auto simp: incr_def Let_def split: Option.bind_splits if_splits)

lemma check_uniqueness_block_le:
  assumes "check_uniqueness_block past p pinfo = Some a"
  shows "a \<le> 393210"
proof -
  from assms obtain x y s_ev s_fe where
    x: "block_for (num_edges pinfo) (uniqueness_edge pinfo s_ev) = Some x" and
    y: "block_for (num_faces pinfo) (uniqueness_face past pinfo s_ev s_fe) = Some y" and
    a: "a = x + y"
    by (auto simp: check_uniqueness_block_def bind_eq_Some_conv)
  have "x \<le> 2 * unat (num_edges pinfo)"
    by (rule block_for_bound [OF x]) (rule uniqueness_edge_le)
  moreover have "y \<le> 4 * unat (num_faces pinfo)"
    by (rule block_for_bound [OF y]) (rule uniqueness_face_le)
  ultimately show ?thesis
    using a unat_u16_less [of "num_edges pinfo"] unat_u16_less [of "num_faces pinfo"] by simp
qed

lemma unat_u32_less: "unat (w :: u32) < 4294967296"
  using unsigned_less [of w, where ?'a = nat] by simp

lemma counter_fits:
  assumes "k \<le> c * unat (w :: u32)" "c \<le> 393210"
  shows "k < 2 ^ 64"
proof -
  have "c * unat w \<le> 393210 * 4294967296"
    using assms(2) unat_u32_less [of w] by (intro mult_mono) simp_all
  with assms(1) show ?thesis by simp
qed

lemma v_check_uniqueness_iff:
  assumes "v_check_uniqueness past (unat (m_num_patches ctx)) ctx = Some ok"
  shows "\<not> ok \<longleftrightarrow> (\<exists>p < unat (m_num_patches ctx).
            patch_not_unique (m_patches_info ctx ! p) \<or> patch_out_of_range (m_patches_info ctx ! p))"
proof -
  from assms obtain k where
    k: "launch (unat (m_num_patches ctx)) ctx (check_uniqueness_block past) = Some k" and
    ok: "ok = is_okay (after_kernel 0 k)"
    by (auto simp: v_check_uniqueness_def check_uniqueness_def bind_eq_Some_conv)
  have "k \<le> 393210 * unat (m_num_patches ctx)"
    by (rule launch_bound [OF k]) (rule check_uniqueness_block_le)
  then have "k < 2 ^ 64" by (rule counter_fits) simp
  then have "\<not> ok \<longleftrightarrow> 0 < k" using ok is_okay_after_kernel by simp
  also have "\<dots> \<longleftrightarrow> (\<exists>p < unat (m_num_patches ctx). p < unat (m_num_patches ctx) \<and>
            (patch_not_unique (m_patches_info ctx ! p) \<or> patch_out_of_range (m_patches_info ctx ! p)))"
    by (rule launch_pos_iff [OF k]) (rule check_uniqueness_block_pos)
  finally show ?thesis by simp
qed

lemma v_check_uniqueness_total:
  assumes "uniqueness_readable past ctx"
  shows "\<exists>ok. v_check_uniqueness past (unat (m_num_patches ctx)) ctx = Some ok"
proof -
  from assms have n: "unat (m_num_patches ctx) \<le> length (m_patches_info ctx)"
    and a: "list_all (\<lambda>pinfo. patch_readable pinfo \<and> past_readable past pinfo)
              (take (unat (m_num_patches ctx)) (m_patches_info ctx))"
    by (simp_all add: uniqueness_readable_def)
  have "\<exists>k. launch (unat (m_num_patches ctx)) ctx (check_uniqueness_block past) = Some k"
  proof (rule launch_total [OF n])
    fix p assume p: "p < unat (m_num_patches ctx)"
    from list_all_takeD [OF a p n]
    show "\<exists>a. check_uniqueness_block past p (m_patches_info ctx ! p) = Some a"
      by (intro check_uniqueness_block_total) simp_all
  qed
  then show ?thesis by (auto simp: v_check_uniqueness_def check_uniqueness_def)
qed

lemma v_check_uniqueness_readable:
  assumes "uniqueness_readable past ctx"
  shows "v_check_uniqueness past (unat (m_num_patches ctx)) ctx =
         Some (\<not> (\<exists>p < unat (m_num_patches ctx).
            patch_not_unique (m_patches_info ctx ! p) \<or>
            patch_out_of_range (m_patches_info ctx ! p)))"
proof -
  from v_check_uniqueness_total [OF assms] obtain ok where
    ok: "v_check_uniqueness past (unat (m_num_patches ctx)) ctx = Some ok" ..
  from v_check_uniqueness_iff [OF ok] ok show ?thesis by auto
qed

subsection \<open>The verdict of the check\<close>

lemma loose_readable: "uniqueness_readable (yielding 2) loose_context"
proof -
  have "patch_readable loose_patch" by code_simp
  moreover have "past_readable (yielding 2) loose_patch"
    by (simp add: past_readable_def yielding_def mask_has_def loose_patch_def tri_owner_def)
  moreover have "unat (m_num_patches loose_context) = 1"
      "m_patches_info loose_context = [loose_patch]"
    by (simp_all add: loose_context_def)
  ultimately show ?thesis by (simp add: uniqueness_readable_def)
qed

lemma stray_readable: "uniqueness_readable (yielding 0) stray_context"
proof -
  have "patch_readable stray_patch" by code_simp
  moreover have "past_readable (yielding 0) stray_patch"
    by (simp add: past_readable_def yielding_def mask_has_def stray_patch_def)
  moreover have "unat (m_num_patches stray_context) = 1"
      "m_patches_info stray_context = [stray_patch]"
    by (simp_all add: stray_context_def)
  ultimately show ?thesis by (simp add: uniqueness_readable_def)
qed

text \<open>
  C6, as amended. When the uniqueness check of \<open>validate()\<close> returns, it reports a
  violation if and only if some patch has a non-deleted edge or face that meets one of
  the spec's conditions (equal or inactive vertices of an edge; edges of a face not
  pairwise distinct or not all active; derived vertices not pairwise distinct or not all
  active) or one of the range conditions of the kernel (a vertex index of an edge, an
  edge index of a face or a derived vertex index at or above the patch's count).
  Deleted edges and faces count for nothing. And the check does return, with that
  verdict, on every context that is readable: whatever the reads past the end of \<open>s_ev\<close>
  yield, as long as they yield a value.
\<close>

theorem check_uniqueness_reports:
  "(v_check_uniqueness past (unat (m_num_patches ctx)) ctx = Some ok \<longrightarrow>
      (\<not> ok \<longleftrightarrow> (\<exists>p < unat (m_num_patches ctx).
          patch_not_unique (m_patches_info ctx ! p) \<or>
          patch_out_of_range (m_patches_info ctx ! p)))) \<and>
   (uniqueness_readable past ctx \<longrightarrow>
      v_check_uniqueness past (unat (m_num_patches ctx)) ctx =
        Some (\<not> (\<exists>p < unat (m_num_patches ctx).
          patch_not_unique (m_patches_info ctx ! p) \<or>
          patch_out_of_range (m_patches_info ctx ! p))))"
  using v_check_uniqueness_iff [of past ctx ok] v_check_uniqueness_readable [of past ctx]
  by blast

text \<open>
  The theorem at two inputs. In \<open>loose_context\<close> the face is not deleted and stores the
  edge index 3, with 3 edges in the patch; its three edge indices differ and are active,
  and with reads past the end of \<open>s_ev\<close> that yield the vertex 2 its derived vertices 0, 1
  and 2 differ, are active and in range: the check reports a violation. In
  \<open>tri_context\<close> no condition is met and the check passes.
\<close>

theorem check_uniqueness_reports_witness:
  "uniqueness_readable (yielding 2) loose_context \<and>
   active_f loose_patch 0 \<and> face_edge_out_of_range loose_patch 0 \<and>
   v_check_uniqueness (yielding 2) (unat (m_num_patches loose_context)) loose_context =
     Some False \<and>
   v_check_uniqueness faulting (unat (m_num_patches tri_context)) tri_context = Some True \<and>
   \<not> (\<exists>p < unat (m_num_patches tri_context).
        patch_not_unique (m_patches_info tri_context ! p) \<or>
        patch_out_of_range (m_patches_info tri_context ! p))"
proof -
  have f: "active_f loose_patch 0 \<and> face_edge_out_of_range loose_patch 0" by code_simp
  have "0 < unat (m_num_patches loose_context)"
    and "patch_out_of_range (m_patches_info loose_context ! 0)"
    by code_simp+
  then have x: "\<exists>p < unat (m_num_patches loose_context).
      patch_not_unique (m_patches_info loose_context ! p) \<or>
      patch_out_of_range (m_patches_info loose_context ! p)"
    by blast
  have l: "v_check_uniqueness (yielding 2) (unat (m_num_patches loose_context)) loose_context =
      Some False"
    using check_uniqueness_reports [of "yielding 2" loose_context, THEN conjunct2]
      loose_readable x by simp
  have e: "v_check_uniqueness faulting (unat (m_num_patches tri_context)) tri_context = Some True"
    by code_simp
  show ?thesis
    using loose_readable f l e
      check_uniqueness_reports [of faulting tri_context True, THEN conjunct1]
    by simp
qed

text \<open>
  The claim C6 as stated fails: in \<open>stray_context\<close> the only edge is not deleted, its two
  vertex indices 0 and 5 differ and both have their active bit set, there is no face,
  and the check reports a violation, because 5 is not below the vertex count 2.
\<close>

theorem check_uniqueness_counterexample:
  "v_check_uniqueness faulting (unat (m_num_patches stray_context)) stray_context = Some False \<and>
   unat (m_num_patches stray_context) = 1 \<and>
   \<not> patch_not_unique (m_patches_info stray_context ! 0)"
  by code_simp

text \<open>
  C10. When a non-deleted edge of a patch stores a vertex index at or above the patch's
  vertex count, or a non-deleted face stores an edge index at or above the edge count or
  derives a vertex index at or above the vertex count, the uniqueness check never
  passes, and on every readable context it returns and reports a violation. So a passed
  check guarantees that the topology indices of the non-deleted elements are in range.
\<close>

theorem check_uniqueness_range:
  assumes "p < unat (m_num_patches ctx)" "patch_out_of_range (m_patches_info ctx ! p)"
  shows "v_check_uniqueness past (unat (m_num_patches ctx)) ctx \<noteq> Some True \<and>
         (uniqueness_readable past ctx \<longrightarrow>
            v_check_uniqueness past (unat (m_num_patches ctx)) ctx = Some False)"
proof
  show "v_check_uniqueness past (unat (m_num_patches ctx)) ctx \<noteq> Some True"
  proof
    assume "v_check_uniqueness past (unat (m_num_patches ctx)) ctx = Some True"
    from v_check_uniqueness_iff [OF this] assms show False by blast
  qed
  show "uniqueness_readable past ctx \<longrightarrow>
          v_check_uniqueness past (unat (m_num_patches ctx)) ctx = Some False"
  proof
    assume "uniqueness_readable past ctx"
    from v_check_uniqueness_readable [OF this] assms show
      "v_check_uniqueness past (unat (m_num_patches ctx)) ctx = Some False"
      by auto
  qed
qed

text \<open>
  The theorem at an edge with a vertex index out of range (\<open>stray_context\<close>) and at a face
  with an edge index out of range (\<open>loose_context\<close>): both contexts are readable and the
  check reports a violation on both.
\<close>

theorem check_uniqueness_range_witness:
  "active_e stray_patch 0 \<and> edge_out_of_range stray_patch 0 \<and>
   uniqueness_readable (yielding 0) stray_context \<and>
   v_check_uniqueness (yielding 0) (unat (m_num_patches stray_context)) stray_context =
     Some False \<and>
   active_f loose_patch 0 \<and> face_edge_out_of_range loose_patch 0 \<and>
   uniqueness_readable (yielding 2) loose_context \<and>
   v_check_uniqueness (yielding 2) (unat (m_num_patches loose_context)) loose_context =
     Some False"
proof -
  have s: "active_e stray_patch 0 \<and> edge_out_of_range stray_patch 0" by code_simp
  have sp: "0 < unat (m_num_patches stray_context)" by code_simp
  have sr: "patch_out_of_range (m_patches_info stray_context ! 0)" by code_simp
  have l: "active_f loose_patch 0 \<and> face_edge_out_of_range loose_patch 0" by code_simp
  have lp: "0 < unat (m_num_patches loose_context)" by code_simp
  have lr: "patch_out_of_range (m_patches_info loose_context ! 0)" by code_simp
  show ?thesis
    using s l stray_readable loose_readable
      check_uniqueness_range [OF sp sr, of "yielding 0"]
      check_uniqueness_range [OF lp lr, of "yielding 2"]
    by simp
qed
section \<open>The element-count check\<close>

lemma atomic_sum_eq:
  "atomic_sum f xs = Some k \<Longrightarrow> (\<And>i a. i \<in> set xs \<Longrightarrow> f i = Some a \<Longrightarrow> a = g i) \<Longrightarrow>
   k = sum_list (map g xs)"
proof (induction xs arbitrary: k)
  case Nil
  then show ?case by simp
next
  case (Cons x xs)
  from Cons.prems(1) obtain a b where ab: "f x = Some a" "atomic_sum f xs = Some b" "k = a + b"
    by (auto split: option.splits)
  have "a = g x" using Cons.prems(2) [of x a] ab by simp
  moreover have "b = sum_list (map g xs)"
  proof (rule Cons.IH [OF ab(2)])
    fix i a' assume "i \<in> set xs" "f i = Some a'"
    then show "a' = g i" using Cons.prems(2) [of i a'] by simp
  qed
  ultimately show ?case using ab by simp
qed

lemma sum_list_incr: "sum_list (map (\<lambda>i. incr (P i)) xs) = length (filter P xs)"
  by (induction xs) (simp_all add: incr_def)

lemma count_owned_eq:
  assumes "atomic_sum (\<lambda>i. map_option incr (is_owned (word_of_nat i) m)) [0..<unat n] = Some k"
  shows "k = owned_count m n"
proof -
  have "k = sum_list (map (\<lambda>i. incr (mask_bit m i)) [0..<unat n])"
  proof (rule atomic_sum_eq [OF assms])
    fix i a assume "i \<in> set [0..<unat n]" "map_option incr (is_owned (word_of_nat i) m) = Some a"
    then show "a = incr (mask_bit m i)"
      using unat_u16_less [of n] by (auto simp: unat_of_nat dest!: is_owned_SomeD)
  qed
  then show ?thesis by (simp add: sum_list_incr owned_count_def)
qed

lemma for_each_dispatcher_eq:
  assumes "for_each_dispatcher num owned_mask (unat (m_num_patches ctx)) ctx = Some k"
  shows "k = total_owned num owned_mask ctx"
  unfolding total_owned_def
proof (rule atomic_sum_eq [OF assms [unfolded for_each_dispatcher_def launch_def]])
  fix p a
  assume "p \<in> set [0..<unat (m_num_patches ctx)]"
    and "(if p < unat (m_num_patches ctx)
          then case rd (m_patches_info ctx) p of None \<Rightarrow> None
               | Some patch_info \<Rightarrow>
                   atomic_sum
                     (\<lambda>i. map_option incr (is_owned (word_of_nat i) (owned_mask patch_info)))
                     [0..<unat (num patch_info)]
          else Some 0) = Some a"
  then show "a = owned_count (owned_mask (m_patches_info ctx ! p)) (num (m_patches_info ctx ! p))"
    by (auto simp: rd_Some_iff split: option.splits dest: count_owned_eq)
qed

lemma word_of_nat_eq_unat:
  "k < 2 ^ 32 \<Longrightarrow> (w = (word_of_nat k :: u32)) \<longleftrightarrow> unat w = k"
  by (auto simp: unat_of_nat)


lemma v_check_num_mesh_elements_iff:
  assumes "v_check_num_mesh_elements (unat (m_num_patches ctx)) ctx = Some ok"
  shows "ok \<longleftrightarrow>
           m_num_vertices ctx = word_of_nat (total_owned num_vertices owned_mask_v ctx) \<and>
           m_num_edges ctx = word_of_nat (total_owned num_edges owned_mask_e ctx) \<and>
           m_num_faces ctx = word_of_nat (total_owned num_faces owned_mask_f ctx)"
proof -
  from assms obtain sv se sf where
    sv: "for_each_dispatcher num_vertices owned_mask_v (unat (m_num_patches ctx)) ctx = Some sv" and
    se: "for_each_dispatcher num_edges owned_mask_e (unat (m_num_patches ctx)) ctx = Some se" and
    sf: "for_each_dispatcher num_faces owned_mask_f (unat (m_num_patches ctx)) ctx = Some sf" and
    ok: "ok \<longleftrightarrow> \<not> (m_num_vertices ctx \<noteq> word_of_nat sv \<or> m_num_edges ctx \<noteq> word_of_nat se \<or>
                    m_num_faces ctx \<noteq> word_of_nat sf)"
    by (auto simp: v_check_num_mesh_elements_def calc_num_elements_def bind_eq_Some_conv
        split: option.splits if_splits)
  show ?thesis
    using ok for_each_dispatcher_eq [OF sv] for_each_dispatcher_eq [OF se]
      for_each_dispatcher_eq [OF sf] by blast
qed

text \<open>
  C7. The element-count check of \<open>validate()\<close> sums, over all patches, the elements whose
  owned bit is set, separately for vertices, edges and faces, and succeeds if and only
  if each of the three sums equals the corresponding count of the context. The sums are
  32-bit counters; the statement is for sums that fit 32 bits, as the counts of the
  context do (\<open>v_check_num_mesh_elements_iff\<close> is the statement modulo \<open>2^32\<close>).
\<close>

theorem element_count_check:
  assumes "v_check_num_mesh_elements (unat (m_num_patches ctx)) ctx = Some ok"
    and "total_owned num_vertices owned_mask_v ctx < 2 ^ 32"
    and "total_owned num_edges owned_mask_e ctx < 2 ^ 32"
    and "total_owned num_faces owned_mask_f ctx < 2 ^ 32"
  shows "ok \<longleftrightarrow>
           total_owned num_vertices owned_mask_v ctx = unat (m_num_vertices ctx) \<and>
           total_owned num_edges owned_mask_e ctx = unat (m_num_edges ctx) \<and>
           total_owned num_faces owned_mask_f ctx = unat (m_num_faces ctx)"
  using v_check_num_mesh_elements_iff [OF assms(1)] assms(2-4)
  by (auto simp: word_of_nat_eq_unat)

theorem element_count_check_witness:
  "v_check_num_mesh_elements (unat (m_num_patches tri_context)) tri_context = Some True \<and>
   total_owned num_vertices owned_mask_v tri_context = unat (m_num_vertices tri_context) \<and>
   total_owned num_edges owned_mask_e tri_context = unat (m_num_edges tri_context) \<and>
   total_owned num_faces owned_mask_f tri_context = unat (m_num_faces tri_context)"
proof -
  have e: "v_check_num_mesh_elements (unat (m_num_patches tri_context)) tri_context = Some True"
    by code_simp
  have "total_owned num_vertices owned_mask_v tri_context = 3" by code_simp
  then have v: "total_owned num_vertices owned_mask_v tri_context < 2 ^ 32" by simp
  have "total_owned num_edges owned_mask_e tri_context = 3" by code_simp
  then have ed: "total_owned num_edges owned_mask_e tri_context < 2 ^ 32" by simp
  have "total_owned num_faces owned_mask_f tri_context = 1" by code_simp
  then have f: "total_owned num_faces owned_mask_f tri_context < 2 ^ 32" by simp
  show ?thesis using e element_count_check [OF e v ed f] by simp
qed

section \<open>The mirroring check\<close>


















section \<open>\<open>validate()\<close> as a whole\<close>

lemma report_chain:
  "report c4 m4 (report c3 m3 (report c2 m2 (report c1 m1 (True, [])))) =
     (c1 \<and> c2 \<and> c3 \<and> c4, errs c1 m1 @ errs c2 m2 @ errs c3 m3 @ errs c4 m4)"
  by (simp add: report_def RXMESH_ERROR_def errs_def)

lemma validate_unfold:
  "validate L past rf this =
     (case v_check_num_mesh_elements (unat (m_num_patches (m_rxmesh_context this))) (m_rxmesh_context this) of
        None \<Rightarrow> None
      | Some c1 \<Rightarrow>
     (case v_check_uniqueness past (unat (m_num_patches (m_rxmesh_context this))) (m_rxmesh_context this) of
        None \<Rightarrow> None
      | Some c2 \<Rightarrow>
     (case v_check_not_owned L (unat (m_num_patches (m_rxmesh_context this))) (m_rxmesh_context this) of
        None \<Rightarrow> None
      | Some c3 \<Rightarrow>
     (case v_check_ribbon rf (unat (m_num_patches (m_rxmesh_context this))) (this\<lparr>m_quite := True\<rparr>) of
        None \<Rightarrow> None
      | Some (c4, t) \<Rightarrow>
          Some (c1 \<and> c2 \<and> c3 \<and> c4,
                errs c1 msg_check_num_mesh_elements @ errs c2 msg_check_uniqueness @
                errs c3 msg_check_not_owned @ errs c4 msg_check_ribbon,
                t\<lparr>m_quite := m_quite this\<rparr>)))))"
  unfolding validate_def
  by (simp add: Let_def report_chain split: option.splits prod.splits)


text \<open>
  C3. \<open>validate()\<close> returns exactly when each of its four checks returns, whatever the
  earlier checks have answered; its value is the conjunction of the four answers; the
  log of the call holds, in the order of the checks, one message for each check that
  failed and nothing else; and the four messages are pairwise distinct.
\<close>

theorem validate_runs_all_checks:
  "(validate L past rf this = Some (success, log, this') \<longleftrightarrow>
      (\<exists>c1 c2 c3 c4 t.
         v_check_num_mesh_elements (unat (m_num_patches (m_rxmesh_context this)))
           (m_rxmesh_context this) = Some c1 \<and>
         v_check_uniqueness past (unat (m_num_patches (m_rxmesh_context this)))
           (m_rxmesh_context this) = Some c2 \<and>
         v_check_not_owned L (unat (m_num_patches (m_rxmesh_context this)))
           (m_rxmesh_context this) = Some c3 \<and>
         v_check_ribbon rf (unat (m_num_patches (m_rxmesh_context this)))
           (this\<lparr>m_quite := True\<rparr>) = Some (c4, t) \<and>
         success = (c1 \<and> c2 \<and> c3 \<and> c4) \<and>
         log = errs c1 msg_check_num_mesh_elements @ errs c2 msg_check_uniqueness @
               errs c3 msg_check_not_owned @ errs c4 msg_check_ribbon \<and>
         this' = t\<lparr>m_quite := m_quite this\<rparr>)) \<and>
   distinct [msg_check_num_mesh_elements, msg_check_uniqueness, msg_check_not_owned,
             msg_check_ribbon]"
proof
  show "validate L past rf this = Some (success, log, this') \<longleftrightarrow>
      (\<exists>c1 c2 c3 c4 t.
         v_check_num_mesh_elements (unat (m_num_patches (m_rxmesh_context this)))
           (m_rxmesh_context this) = Some c1 \<and>
         v_check_uniqueness past (unat (m_num_patches (m_rxmesh_context this)))
           (m_rxmesh_context this) = Some c2 \<and>
         v_check_not_owned L (unat (m_num_patches (m_rxmesh_context this)))
           (m_rxmesh_context this) = Some c3 \<and>
         v_check_ribbon rf (unat (m_num_patches (m_rxmesh_context this)))
           (this\<lparr>m_quite := True\<rparr>) = Some (c4, t) \<and>
         success = (c1 \<and> c2 \<and> c3 \<and> c4) \<and>
         log = errs c1 msg_check_num_mesh_elements @ errs c2 msg_check_uniqueness @
               errs c3 msg_check_not_owned @ errs c4 msg_check_ribbon \<and>
         this' = t\<lparr>m_quite := m_quite this\<rparr>)"
    unfolding validate_unfold by (auto split: option.splits)
  show "distinct [msg_check_num_mesh_elements, msg_check_uniqueness, msg_check_not_owned,
             msg_check_ribbon]"
    by (simp add: msg_check_num_mesh_elements_def msg_check_uniqueness_def
        msg_check_not_owned_def msg_check_ribbon_def)
qed

theorem validate_runs_all_checks_witness:
  "validate direct_lp faulting no_ribbon_faces stray_mesh =
     Some (False, [msg_check_uniqueness, msg_check_ribbon], stray_mesh) \<and>
   (\<exists>c1 c2 c3 c4 t.
      v_check_num_mesh_elements (unat (m_num_patches (m_rxmesh_context stray_mesh)))
        (m_rxmesh_context stray_mesh) = Some c1 \<and>
      v_check_uniqueness faulting (unat (m_num_patches (m_rxmesh_context stray_mesh)))
        (m_rxmesh_context stray_mesh) = Some c2 \<and>
      v_check_not_owned direct_lp (unat (m_num_patches (m_rxmesh_context stray_mesh)))
        (m_rxmesh_context stray_mesh) = Some c3 \<and>
      v_check_ribbon no_ribbon_faces (unat (m_num_patches (m_rxmesh_context stray_mesh)))
        (stray_mesh\<lparr>m_quite := True\<rparr>) = Some (c4, t) \<and>
      False = (c1 \<and> c2 \<and> c3 \<and> c4) \<and>
      [msg_check_uniqueness, msg_check_ribbon] =
        errs c1 msg_check_num_mesh_elements @ errs c2 msg_check_uniqueness @
        errs c3 msg_check_not_owned @ errs c4 msg_check_ribbon \<and>
      stray_mesh = t\<lparr>m_quite := m_quite stray_mesh\<rparr>)"
proof -
  have e: "validate direct_lp faulting no_ribbon_faces stray_mesh =
     Some (False, [msg_check_uniqueness, msg_check_ribbon], stray_mesh)"
    by code_simp
  from e validate_runs_all_checks [THEN conjunct1, THEN iffD1, OF e] show ?thesis
    by (rule conjI)
qed

section \<open>What \<open>validate()\<close> leaves behind\<close>

lemma v_check_ribbon_frame:
  assumes "v_check_ribbon rf n this = Some (c, t)"
  shows "\<exists>k. check_ribbon_edges n (m_rxmesh_context this) = Some k \<and>
             t = (if is_okay (after_kernel 0 k) then add_vertex_attribute ''vf'' this else this)"
  using assms
  by (auto simp: v_check_ribbon_def bind_eq_Some_conv Let_def split: if_splits)

text \<open>
  After \<open>validate()\<close> the mesh object is as before the call (the context and its patches,
  the host mirrors and \<open>m_quite\<close> included), except that one more attribute named \<open>vf\<close>
  is registered whenever the ribbon-edge kernel has counted no violation.
\<close>

lemma validate_frame:
  assumes "validate L past rf this = Some (success, log, this')"
  shows "\<exists>k. check_ribbon_edges (unat (m_num_patches (m_rxmesh_context this)))
               (m_rxmesh_context this) = Some k \<and>
             this' = (if is_okay (after_kernel 0 k)
                      then this\<lparr>m_attr_container := m_attr_container this @ [''vf'']\<rparr>
                      else this)"
proof -
  from assms obtain c4 t where
    t: "v_check_ribbon rf (unat (m_num_patches (m_rxmesh_context this)))
          (this\<lparr>m_quite := True\<rparr>) = Some (c4, t)" and
    r: "this' = t\<lparr>m_quite := m_quite this\<rparr>"
    unfolding validate_unfold by (auto split: option.splits)
  from v_check_ribbon_frame [OF t] r show ?thesis
    by (auto simp: add_vertex_attribute_def)
qed

text \<open>
  C4, at the triangle mesh: \<open>validate()\<close> succeeds without a message and returns the mesh
  with the attribute \<open>vf\<close> registered, which the mesh did not have before the call. No
  kernel reads past the end of \<open>s_ev\<close> on this mesh: the call returns although such a read
  would fault.
\<close>

theorem validate_leaves_attribute:
  "validate direct_lp faulting no_ribbon_faces tri_mesh =
     Some (True, [], tri_mesh\<lparr>m_attr_container := [''vf'']\<rparr>) \<and>
   m_attr_container tri_mesh = []"
  by code_simp

text \<open>
  C2, at the patch \<open>cut_patch\<close>: the edges 3 and 4 are owned and marked deleted, no owned
  non-deleted face is incident to them, and the ribbon-edge kernel counts one violation
  for each of them.
\<close>

theorem check_ribbon_edges_deleted_edge:
  "\<not> active_e cut_patch 3 \<and> owned_e cut_patch 3 \<and>
   \<not> active_e cut_patch 4 \<and> owned_e cut_patch 4 \<and>
   check_ribbon_edges (unat (m_num_patches cut_context)) cut_context = Some 2"
  by code_simp

section \<open>\<open>update_host()\<close>: one patch\<close>

lemma cudaMemcpy_copied: "cudaMemcpy dst src n = Some r \<Longrightarrow> copied r src n"
  by (auto simp: cudaMemcpy_def copied_def split: if_splits)

lemma copy_lp_synced:
  "copy_lp_table h_lp d_lp = Some t \<Longrightarrow> copy_lp_stash Z t d_lp = Some s \<Longrightarrow> lp_synced Z s d_lp"
  by (auto simp: copy_lp_table_def copy_lp_stash_def lp_synced_def bind_eq_Some_conv
      dest: cudaMemcpy_copied)

lemma lp_synced_fix:
  assumes "lp_synced Z h_lp d_lp"
  shows "copy_lp_table h_lp d_lp = Some h_lp" and "copy_lp_stash Z h_lp d_lp = Some h_lp"
  using assms by (simp_all add: copy_lp_table_def copy_lp_stash_def lp_synced_def copied_def)

lemma resize_masks_cap: "sz \<le> fst (resize_masks sz cam)"
  by (auto simp: resize_masks_def)

lemma patch_synced_fix:
  assumes "patch_synced Z d h"
  shows "update_patch Z d h = Some h"
proof -
  have 1: "copy_counts d h = h"
    using assms by (simp add: patch_synced_def copy_counts_def)
  have 2: "resize_topology h = h"
    using assms by (auto simp: patch_synced_def resize_topology_def Let_def)
  have 3: "copy_topology d h = Some h"
    using assms by (simp add: patch_synced_def copy_topology_def copied_def)
  have 4: "resize_all_masks h = h"
    using assms
    by (auto simp: patch_synced_def resize_all_masks_def resize_masks_def Let_def)
  have 5: "copy_masks d h = Some h"
    using assms by (simp add: patch_synced_def copy_masks_def copied_def)
  have lp: "lp_synced Z (lp_v h) (lp_v d)" "lp_synced Z (lp_e h) (lp_e d)"
    "lp_synced Z (lp_f h) (lp_f d)" and
    ps: "cudaMemcpy (patch_stash h) (patch_stash d) (patch_stash_size Z) = Some (patch_stash h)"
    using assms by (simp_all add: patch_synced_def copied_def)
  have 6: "copy_stash_lp Z d h = Some h"
    by (simp add: copy_stash_lp_def ps lp_synced_fix [OF lp(1)] lp_synced_fix [OF lp(2)]
        lp_synced_fix [OF lp(3)])
  show ?thesis by (simp add: update_patch_def 1 2 3 4 5 6)
qed


lemma resize_all_masks_eq:
  "resize_all_masks h =
     h\<lparr>vertices_capacity := fst (resize_masks (num_vertices h) (vertices_capacity h, active_mask_v h, owned_mask_v h)),
       active_mask_v := fst (snd (resize_masks (num_vertices h) (vertices_capacity h, active_mask_v h, owned_mask_v h))),
       owned_mask_v := snd (snd (resize_masks (num_vertices h) (vertices_capacity h, active_mask_v h, owned_mask_v h))),
       edges_capacity := fst (resize_masks (num_edges h) (edges_capacity h, active_mask_e h, owned_mask_e h)),
       active_mask_e := fst (snd (resize_masks (num_edges h) (edges_capacity h, active_mask_e h, owned_mask_e h))),
       owned_mask_e := snd (snd (resize_masks (num_edges h) (edges_capacity h, active_mask_e h, owned_mask_e h))),
       faces_capacity := fst (resize_masks (num_faces h) (faces_capacity h, active_mask_f h, owned_mask_f h)),
       active_mask_f := fst (snd (resize_masks (num_faces h) (faces_capacity h, active_mask_f h, owned_mask_f h))),
       owned_mask_f := snd (snd (resize_masks (num_faces h) (faces_capacity h, active_mask_f h, owned_mask_f h)))\<rparr>"
  by (simp add: resize_all_masks_def case_prod_beta Let_def)

lemma resize_topology_eq:
  "\<exists>ev' fe'. resize_topology h = h\<lparr>ev := ev', fe := fe'\<rparr>"
proof -
  have "resize_topology h = h\<lparr>ev := ev (resize_topology h), fe := fe (resize_topology h)\<rparr>"
    by (simp add: resize_topology_def Let_def)
  then show ?thesis by blast
qed

lemma update_patch_synced:
  assumes "update_patch Z d h = Some h'"
  shows "patch_synced Z d h'"
proof -
  obtain ev0 fe0 where h2: "resize_topology (copy_counts d h) = (copy_counts d h)\<lparr>ev := ev0, fe := fe0\<rparr>"
    using resize_topology_eq by blast
  from assms obtain h3 h5 where
    h3: "copy_topology d ((copy_counts d h)\<lparr>ev := ev0, fe := fe0\<rparr>) = Some h3" and
    h5: "copy_masks d (resize_all_masks h3) = Some h5" and
    h': "copy_stash_lp Z d h5 = Some h'"
    by (auto simp: update_patch_def bind_eq_Some_conv h2)
  from h3 obtain ev1 fe1 where
    e3: "h3 = (copy_counts d h)\<lparr>ev := ev1, fe := fe1\<rparr>" and
    c3: "copied ev1 (ev d) (2 * unat (num_edges d))" "copied fe1 (fe d) (3 * unat (num_faces d))"
    by (auto simp: copy_topology_def bind_eq_Some_conv copy_counts_def dest!: cudaMemcpy_copied)
  let ?h4 = "resize_all_masks h3"
  have n4: "num_vertices ?h4 = num_vertices d" "num_edges ?h4 = num_edges d"
    "num_faces ?h4 = num_faces d" "ev ?h4 = ev1" "fe ?h4 = fe1"
    by (simp_all add: resize_all_masks_eq e3 copy_counts_def)
  have c4: "num_vertices d \<le> vertices_capacity ?h4" "num_edges d \<le> edges_capacity ?h4"
    "num_faces d \<le> faces_capacity ?h4"
    using resize_masks_cap by (simp_all add: resize_all_masks_eq e3 copy_counts_def)
  from h5 obtain av ov ae oe af owf where
    e5: "h5 = ?h4\<lparr>active_mask_v := av, owned_mask_v := ov, active_mask_e := ae,
                   owned_mask_e := oe, active_mask_f := af, owned_mask_f := owf\<rparr>" and
    c5: "copied av (active_mask_v d) (mask_num_words (num_vertices d))"
        "copied ov (owned_mask_v d) (mask_num_words (num_vertices d))"
        "copied ae (active_mask_e d) (mask_num_words (num_edges d))"
        "copied oe (owned_mask_e d) (mask_num_words (num_edges d))"
        "copied af (active_mask_f d) (mask_num_words (num_faces d))"
        "copied owf (owned_mask_f d) (mask_num_words (num_faces d))"
    unfolding copy_masks_def n4
    by (auto simp: bind_eq_Some_conv dest!: cudaMemcpy_copied)
  from h' obtain ps tv te tf sv se sf where
    e6: "h' = h5\<lparr>patch_stash := ps, lp_v := sv, lp_e := se, lp_f := sf\<rparr>" and
    p6: "copied ps (patch_stash d) (patch_stash_size Z)" and
    t6: "copy_lp_table (lp_v h5) (lp_v d) = Some tv" "copy_lp_table (lp_e h5) (lp_e d) = Some te"
        "copy_lp_table (lp_f h5) (lp_f d) = Some tf" and
    s6: "copy_lp_stash Z tv (lp_v d) = Some sv" "copy_lp_stash Z te (lp_e d) = Some se"
        "copy_lp_stash Z tf (lp_f d) = Some sf"
    unfolding copy_stash_lp_def
    by (auto simp: bind_eq_Some_conv dest!: cudaMemcpy_copied)
  have c6: "copied ps (patch_stash d) (patch_stash_size Z)"
        "lp_synced Z sv (lp_v d)" "lp_synced Z se (lp_e d)" "lp_synced Z sf (lp_f d)"
    using p6 copy_lp_synced [OF t6(1) s6(1)] copy_lp_synced [OF t6(2) s6(2)]
      copy_lp_synced [OF t6(3) s6(3)] by simp_all
  show ?thesis
    unfolding patch_synced_def e6 e5
    using n4 c3 c4 c5 c6 by simp
qed

lemma update_patch_idem: "update_patch Z d h = Some h' \<Longrightarrow> update_patch Z d h' = Some h'"
  by (rule patch_synced_fix) (rule update_patch_synced)

section \<open>\<open>update_host()\<close>: the loop over the patches\<close>

lemma patch_step_Some_iff:
  "patch_step Z p s = Some s' \<longleftrightarrow>
     p < length (m_d_patches_info s) \<and> p < length (m_h_patches_info s) \<and>
     patch_id (m_d_patches_info s ! p) = word_of_nat p \<and>
     (\<exists>h'. update_patch Z (m_d_patches_info s ! p) (m_h_patches_info s ! p) = Some h' \<and>
           s' = s\<lparr>m_h_patches_info := (m_h_patches_info s)[p := h']\<rparr>)"
  by (auto simp: patch_step_def bind_eq_Some_conv rd_Some_iff split: if_splits)

lemma patch_fixed_step: "patch_fixed Z s p \<Longrightarrow> patch_step Z p s = Some s"
  by (simp add: patch_step_Some_iff patch_fixed_def patch_synced_fix)

lemma patch_step_fixed: "patch_step Z p s = Some s' \<Longrightarrow> patch_fixed Z s' p"
  by (auto simp: patch_step_Some_iff patch_fixed_def dest: update_patch_synced)

lemma patch_step_keeps:
  assumes "patch_step Z q s = Some s'" "patch_fixed Z s p"
  shows "patch_fixed Z s' p"
proof (cases "p = q")
  case True
  with assms(1) show ?thesis by (simp add: patch_step_fixed)
next
  case False
  with assms show ?thesis by (auto simp: patch_step_Some_iff patch_fixed_def)
qed

lemma for_patches_invariant:
  assumes "for_patches body ps s = Some s'" "I s"
    and "\<And>q s1 s2. q \<in> set ps \<Longrightarrow> body q s1 = Some s2 \<Longrightarrow> I s1 \<Longrightarrow> I s2"
  shows "I s'"
  using assms
proof (induction ps arbitrary: s)
  case Nil
  then show ?case by simp
next
  case (Cons p ps)
  from Cons.prems(1) obtain s1 where s1: "body p s = Some s1" "for_patches body ps s1 = Some s'"
    by (auto split: option.splits)
  have "I s1" using Cons.prems(3) [of p s s1] s1 Cons.prems(2) by simp
  with s1(2) show ?case
  proof (rule Cons.IH)
    fix q t1 t2 assume "q \<in> set ps" "body q t1 = Some t2" "I t1"
    then show "I t2" using Cons.prems(3) [of q t1 t2] by simp
  qed
qed

lemma for_patches_fixed:
  "(\<And>p. p \<in> set ps \<Longrightarrow> body p s = Some s) \<Longrightarrow> for_patches body ps s = Some s"
  by (induction ps) simp_all

lemma patch_loop_fixed:
  assumes "for_patches (patch_step Z) ps s = Some s'" "p \<in> set ps"
  shows "patch_fixed Z s' p"
  using assms
proof (induction ps arbitrary: s)
  case Nil
  then show ?case by simp
next
  case (Cons q ps)
  from Cons.prems(1) obtain s1 where
    s1: "patch_step Z q s = Some s1" "for_patches (patch_step Z) ps s1 = Some s'"
    by (auto split: option.splits)
  show ?case
  proof (cases "p = q")
    case True
    have "patch_fixed Z s1 p" using s1(1) True by (simp add: patch_step_fixed)
    with s1(2) show ?thesis
      by (rule for_patches_invariant) (rule patch_step_keeps)
  next
    case False
    with Cons.prems(2) have "p \<in> set ps" by simp
    with Cons.IH [OF s1(2)] show ?thesis .
  qed
qed

lemma patch_loop_frame:
  assumes "for_patches (patch_step Z) ps s = Some s'"
  shows "\<exists>hs. s' = s\<lparr>m_h_patches_info := hs\<rparr>"
proof -
  have "\<exists>hs. s = s\<lparr>m_h_patches_info := hs\<rparr>" by (rule exI [of _ "m_h_patches_info s"]) simp
  with assms show ?thesis
  proof (rule for_patches_invariant)
    fix q s1 s2
    assume "patch_step Z q s1 = Some s2" "\<exists>hs. s1 = s\<lparr>m_h_patches_info := hs\<rparr>"
    then show "\<exists>hs. s2 = s\<lparr>m_h_patches_info := hs\<rparr>"
      by (auto simp: patch_step_Some_iff)
  qed
qed

section \<open>\<open>update_host()\<close>: the loop over the counts\<close>

lemma vec_set_Some_iff: "vec_set xs i v = Some ys \<longleftrightarrow> i < length xs \<and> ys = xs[i := v]"
  by (auto simp: vec_set_def)

lemma count_type_Some_iff:
  "count_type p num m (n, oc, pr) = Some r \<longleftrightarrow>
     p < length n \<and> p < length oc \<and> Suc p < length pr \<and>
     (\<exists>c. get_num_owned m num = Some c \<and>
          r = (n[p := ucast num], oc[p := ucast c], pr[Suc p := pr ! p + ucast c]))"
  by (auto simp: count_type_def bind_eq_Some_conv vec_set_Some_iff rd_Some_iff)

lemma same_list_update_conv: "i < length xs \<Longrightarrow> (xs = xs[i := x]) = (xs ! i = x)"
  using list_update_same_conv [of i xs x] by auto

lemma type_fixed_iff:
  "type_fixed p num m (n, oc, pr) \<longleftrightarrow>
     p < length n \<and> p < length oc \<and> Suc p < length pr \<and>
     (\<exists>c. get_num_owned m num = Some c \<and>
          n ! p = ucast num \<and> oc ! p = ucast c \<and> pr ! Suc p = pr ! p + ucast c)"
  by (auto simp: type_fixed_def count_type_Some_iff same_list_update_conv)

lemma count_type_fixed:
  "count_type p num m nop = Some nop' \<Longrightarrow> type_fixed p num m nop'"
  by (cases nop) (auto simp: count_type_Some_iff type_fixed_iff)

lemma count_type_keeps:
  "count_type q numq mq nop = Some nop' \<Longrightarrow> type_fixed p num m nop \<Longrightarrow> p < q \<Longrightarrow>
   type_fixed p num m nop'"
  by (cases nop) (auto simp: count_type_Some_iff type_fixed_iff)

lemma count_step_Some_iff:
  "count_step p s = Some s' \<longleftrightarrow>
     p < length (m_h_patches_info s) \<and>
     (\<exists>v e f.
        count_type p (num_vertices (m_h_patches_info s ! p)) (owned_mask_v (m_h_patches_info s ! p))
          (m_h_num_v s, m_h_num_owned_v s, m_h_vertex_prefix s) = Some v \<and>
        count_type p (num_edges (m_h_patches_info s ! p)) (owned_mask_e (m_h_patches_info s ! p))
          (m_h_num_e s, m_h_num_owned_e s, m_h_edge_prefix s) = Some e \<and>
        count_type p (num_faces (m_h_patches_info s ! p)) (owned_mask_f (m_h_patches_info s ! p))
          (m_h_num_f s, m_h_num_owned_f s, m_h_face_prefix s) = Some f \<and>
        s' = s\<lparr>m_h_num_v := fst v, m_h_num_owned_v := fst (snd v), m_h_vertex_prefix := snd (snd v),
               m_h_num_e := fst e, m_h_num_owned_e := fst (snd e), m_h_edge_prefix := snd (snd e),
               m_h_num_f := fst f, m_h_num_owned_f := fst (snd f), m_h_face_prefix := snd (snd f)\<rparr>)"
  by (auto simp: count_step_def bind_eq_Some_conv rd_Some_iff)

lemma count_fixed_step: "count_fixed s p \<Longrightarrow> count_step p s = Some s"
  by (auto simp: count_step_Some_iff count_fixed_def type_fixed_def Let_def)

lemma count_step_fixed: "count_step p s = Some s' \<Longrightarrow> count_fixed s' p"
  by (auto simp: count_step_Some_iff count_fixed_def Let_def dest!: count_type_fixed)

lemma count_step_keeps:
  assumes "count_step q s = Some s'" "count_fixed s p" "p < q"
  shows "count_fixed s' p"
  using assms
  by (auto simp: count_step_Some_iff count_fixed_def Let_def dest: count_type_keeps)

lemma count_loop_fixed:
  assumes "for_patches count_step ps s = Some s'" "sorted_wrt (<) ps" "p \<in> set ps"
  shows "count_fixed s' p"
  using assms
proof (induction ps arbitrary: s)
  case Nil
  then show ?case by simp
next
  case (Cons q ps)
  from Cons.prems(1) obtain s1 where
    s1: "count_step q s = Some s1" "for_patches count_step ps s1 = Some s'"
    by (auto split: option.splits)
  show ?case
  proof (cases "p = q")
    case True
    have "count_fixed s1 p" using s1(1) True by (simp add: count_step_fixed)
    with s1(2) show ?thesis
    proof (rule for_patches_invariant)
      fix r t1 t2 assume "r \<in> set ps" "count_step r t1 = Some t2" "count_fixed t1 p"
      moreover from \<open>r \<in> set ps\<close> Cons.prems(2) True have "p < r" by simp
      ultimately show "count_fixed t2 p" by (simp add: count_step_keeps)
    qed
  next
    case False
    with Cons.prems(3) have "p \<in> set ps" by simp
    moreover from Cons.prems(2) have "sorted_wrt (<) ps" by simp
    ultimately show ?thesis using Cons.IH [OF s1(2)] by simp
  qed
qed

lemma count_loop_frame:
  assumes "for_patches count_step ps s = Some s'"
  shows "\<exists>a b c d e f g h i.
           s' = s\<lparr>m_h_num_v := a, m_h_num_owned_v := b, m_h_vertex_prefix := c,
                  m_h_num_e := d, m_h_num_owned_e := e, m_h_edge_prefix := f,
                  m_h_num_f := g, m_h_num_owned_f := h, m_h_face_prefix := i\<rparr>"
proof -
  let ?I = "\<lambda>t. \<exists>a b c d e f g h i.
           t = s\<lparr>m_h_num_v := a, m_h_num_owned_v := b, m_h_vertex_prefix := c,
                  m_h_num_e := d, m_h_num_owned_e := e, m_h_edge_prefix := f,
                  m_h_num_f := g, m_h_num_owned_f := h, m_h_face_prefix := i\<rparr>"
  have "s = s\<lparr>m_h_num_v := m_h_num_v s, m_h_num_owned_v := m_h_num_owned_v s,
               m_h_vertex_prefix := m_h_vertex_prefix s,
               m_h_num_e := m_h_num_e s, m_h_num_owned_e := m_h_num_owned_e s,
               m_h_edge_prefix := m_h_edge_prefix s,
               m_h_num_f := m_h_num_f s, m_h_num_owned_f := m_h_num_owned_f s,
               m_h_face_prefix := m_h_face_prefix s\<rparr>" by simp
  then have "?I s" by blast
  with assms show ?thesis
  proof (rule for_patches_invariant)
    fix q s1 s2
    assume "count_step q s1 = Some s2" "?I s1"
    then show "?I s2"
      apply (clarsimp simp: count_step_Some_iff)
      apply (intro exI)
      apply (rule refl)
      done
  qed
qed

lemma push_summaries_Some:
  assumes "push_summaries s = Some s'"
  shows "\<exists>ov oe owf nv ne nf.
           s' = s\<lparr>m_d_num_owned_v := ov, m_d_num_owned_e := oe, m_d_num_owned_f := owf,
                  m_d_num_v := nv, m_d_num_e := ne, m_d_num_f := nf\<rparr> \<and>
           copied ov (m_h_num_owned_v s) (unat (m_num_patches_host s)) \<and>
           copied oe (m_h_num_owned_e s) (unat (m_num_patches_host s)) \<and>
           copied owf (m_h_num_owned_f s) (unat (m_num_patches_host s)) \<and>
           copied nv (m_h_num_v s) (unat (m_num_patches_host s)) \<and>
           copied ne (m_h_num_e s) (unat (m_num_patches_host s)) \<and>
           copied nf (m_h_num_f s) (unat (m_num_patches_host s))"
  using assms
  apply (clarsimp simp: push_summaries_def bind_eq_Some_conv Let_def dest!: cudaMemcpy_copied)
  apply (intro exI conjI)
        apply (rule refl)
       apply assumption+
  done

section \<open>\<open>update_host()\<close> twice\<close>

lemma copied_fix: "copied dst src n \<Longrightarrow> cudaMemcpy dst src n = Some dst"
  by (simp add: copied_def)

text \<open>
  C8. When a call of \<open>update_host()\<close> returns, a second call on the state it has left,
  with the device untouched in between, returns too, logs the same messages and leaves
  the whole mesh object as the first call left it: the per-patch counts, capacities,
  topology arrays, masks, patch stashes and LP tables of the host, the count vectors and
  the prefix sums, and the device-side summary arrays.
\<close>

theorem update_host_idempotent:
  assumes "update_host Z this = Some (log, this')"
  shows "update_host Z this' = Some (log, this')"
proof -
  let ?n = "unat (m_num_patches_host this)"
  let ?l0 = "error_if (m_num_patches (m_rxmesh_context this) \<noteq> m_num_patches_host this)
               msg_num_patches []"
  from assms obtain s1 s3 where
    s1: "for_patches (patch_step Z) [0..<?n] this = Some s1" and
    s3: "for_patches count_step [0..<unat (m_num_patches_host (pull_counts s1))] (pull_counts s1)
           = Some s3" and
    lg: "check_prefix s3 ?l0 = Some log" and
    s': "push_summaries s3 = Some this'"
    by (auto simp: update_host_def bind_eq_Some_conv Let_def)
  from patch_loop_frame [OF s1] obtain hs where e1: "s1 = this\<lparr>m_h_patches_info := hs\<rparr>"
    by blast
  have n1: "unat (m_num_patches_host (pull_counts s1)) = ?n"
    by (simp add: e1 pull_counts_def)
  from count_loop_frame [OF s3] obtain a b c d e f g h i where
    e3: "s3 = (pull_counts s1)\<lparr>m_h_num_v := a, m_h_num_owned_v := b, m_h_vertex_prefix := c,
                  m_h_num_e := d, m_h_num_owned_e := e, m_h_edge_prefix := f,
                  m_h_num_f := g, m_h_num_owned_f := h, m_h_face_prefix := i\<rparr>"
    by blast
  from push_summaries_Some [OF s'] obtain ov oe owf nv ne nf where
    e': "this' = s3\<lparr>m_d_num_owned_v := ov, m_d_num_owned_e := oe, m_d_num_owned_f := owf,
                  m_d_num_v := nv, m_d_num_e := ne, m_d_num_f := nf\<rparr>" and
    c': "copied ov (m_h_num_owned_v s3) (unat (m_num_patches_host s3))"
        "copied oe (m_h_num_owned_e s3) (unat (m_num_patches_host s3))"
        "copied owf (m_h_num_owned_f s3) (unat (m_num_patches_host s3))"
        "copied nv (m_h_num_v s3) (unat (m_num_patches_host s3))"
        "copied ne (m_h_num_e s3) (unat (m_num_patches_host s3))"
        "copied nf (m_h_num_f s3) (unat (m_num_patches_host s3))"
    by blast
  have n': "unat (m_num_patches_host this') = ?n"
    and l': "error_if (m_num_patches (m_rxmesh_context this') \<noteq> m_num_patches_host this')
               msg_num_patches [] = ?l0"
    by (simp_all add: e' e3 e1 pull_counts_def)
  have "patch_fixed Z this' p" if "p \<in> set [0..<?n]" for p
  proof -
    have "patch_fixed Z s1 p" using patch_loop_fixed [OF s1 that] .
    then show ?thesis by (simp add: patch_fixed_def e' e3 pull_counts_def)
  qed
  then have 1: "for_patches (patch_step Z) [0..<?n] this' = Some this'"
    by (intro for_patches_fixed patch_fixed_step)
  have 2: "pull_counts this' = this'"
    by (simp add: e' e3 e1 pull_counts_def)
  have "count_fixed this' p" if "p \<in> set [0..<?n]" for p
  proof -
    have "count_fixed s3 p"
      using count_loop_fixed [OF s3] that n1 by (simp add: sorted_wrt_upt)
    then show ?thesis by (simp add: count_fixed_def e')
  qed
  then have 3: "for_patches count_step [0..<?n] this' = Some this'"
    by (intro for_patches_fixed count_fixed_step)
  have 4: "check_prefix this' ?l0 = Some log"
    using lg by (simp add: check_prefix_def e')
  have 5: "push_summaries this' = Some this'"
    using c' by (simp add: push_summaries_def e' copied_fix)
  show ?thesis
    by (simp add: update_host_def Let_def n' l' 1 2 3 4 5)
qed


theorem update_host_idempotent_witness:
  "update_host tri_sizes stale_mesh = Some ([], tri_mesh) \<and>
   update_host tri_sizes tri_mesh = Some ([], tri_mesh)"
proof -
  have e: "update_host tri_sizes stale_mesh = Some ([], tri_mesh)"
    by code_simp
  from e update_host_idempotent [OF e] show ?thesis by (rule conjI)
qed

section \<open>\<open>update_host()\<close> with a patch count that changed\<close>

lemma for_patches_commute:
  assumes "\<And>p s. body p (g s) = map_option g (body p s)"
  shows "for_patches body ps (g s) = map_option g (for_patches body ps s)"
proof (induction ps arbitrary: s)
  case Nil
  then show ?case by simp
next
  case (Cons p ps)
  then show ?case by (cases "body p s") (simp_all add: assms)
qed

lemma option_eqI: "(\<And>x. a = Some x \<longleftrightarrow> b = Some x) \<Longrightarrow> a = b"
  by (cases a; cases b) auto

lemma patch_step_device_patches:
  "patch_step Z p (with_device_patches n s) = map_option (with_device_patches n) (patch_step Z p s)"
  by (rule option_eqI) (auto simp: patch_step_Some_iff with_device_patches_def)

lemma count_step_device_patches:
  "count_step p (with_device_patches n s) = map_option (with_device_patches n) (count_step p s)"
  by (rule option_eqI) (auto simp: count_step_Some_iff with_device_patches_def)

lemma patch_loop_device_patches:
  "for_patches (patch_step Z) ps (with_device_patches n s) =
     map_option (with_device_patches n) (for_patches (patch_step Z) ps s)"
  by (rule for_patches_commute) (rule patch_step_device_patches)

lemma count_loop_device_patches:
  "for_patches count_step ps (with_device_patches n s) =
     map_option (with_device_patches n) (for_patches count_step ps s)"
  by (rule for_patches_commute) (rule count_step_device_patches)

lemma pull_counts_device_patches:
  "pull_counts (with_device_patches n s) = with_device_patches n (pull_counts s)"
  by (simp add: pull_counts_def with_device_patches_def)

lemma push_summaries_device_patches:
  "push_summaries (with_device_patches n s) = map_option (with_device_patches n) (push_summaries s)"
  by (rule option_eqI)
    (auto simp: push_summaries_def with_device_patches_def bind_eq_Some_conv Let_def)

lemma check_prefix_device_patches:
  "check_prefix (with_device_patches n s) l = check_prefix s l"
  by (simp add: check_prefix_def with_device_patches_def)

lemma check_prefix_log:
  "check_prefix s (m # l) = map_option ((#) m) (check_prefix s l)"
  by (rule option_eqI)
    (auto simp: check_prefix_def bind_eq_Some_conv Let_def error_if_def RXMESH_ERROR_def)

text \<open>
  C1, as amended. When the patch count read back from the device differs from the
  host-side count, \<open>update_host()\<close> reports the error and goes on: it returns exactly when
  the call with an agreeing device count returns, its log is the error message followed
  by the log of that call, and it leaves the mesh object as that call leaves it (the
  device count apart, which neither call writes).
\<close>

theorem update_host_patch_count_mismatch:
  assumes "m_num_patches (m_rxmesh_context this) \<noteq> m_num_patches_host this"
  shows "update_host Z this =
           map_option (\<lambda>(log, t). (msg_num_patches # log,
                                    with_device_patches (m_num_patches (m_rxmesh_context this)) t))
             (update_host Z (with_device_patches (m_num_patches_host this) this))"
proof -
  let ?n = "m_num_patches (m_rxmesh_context this)"
  let ?s = "with_device_patches (m_num_patches_host this) this"
  have eq: "with_device_patches ?n ?s = this"
    by (simp add: with_device_patches_def)
  have host: "m_num_patches_host (with_device_patches k t) = m_num_patches_host t"
    and dev: "m_num_patches (m_rxmesh_context (with_device_patches k t)) = k" for k t
    by (simp_all add: with_device_patches_def)
  have pc: "m_num_patches_host (pull_counts t) = m_num_patches_host t" for t
    by (simp add: pull_counts_def)
  have "update_host Z (with_device_patches ?n ?s) =
           map_option (\<lambda>(log, t). (msg_num_patches # log, with_device_patches ?n t))
             (update_host Z ?s)"
    using assms
    by (simp add: update_host_def Let_def host dev pc error_if_def RXMESH_ERROR_def
        patch_loop_device_patches count_loop_device_patches
        pull_counts_device_patches push_summaries_device_patches check_prefix_device_patches
        check_prefix_log map_option_bind bind_map_option o_def
        split: Option.bind_split)
  then show ?thesis by (simp only: eq)
qed

theorem update_host_patch_count_mismatch_witness:
  "m_num_patches (m_rxmesh_context mismatch_mesh) \<noteq> m_num_patches_host mismatch_mesh \<and>
   update_host tri_sizes (with_device_patches (m_num_patches_host mismatch_mesh) mismatch_mesh) =
     Some ([], tri_mesh) \<and>
   update_host tri_sizes mismatch_mesh =
     Some ([msg_num_patches],
           with_device_patches (m_num_patches (m_rxmesh_context mismatch_mesh)) tri_mesh)"
proof -
  have ne: "m_num_patches (m_rxmesh_context mismatch_mesh) \<noteq> m_num_patches_host mismatch_mesh"
    by code_simp
  have e: "update_host tri_sizes
             (with_device_patches (m_num_patches_host mismatch_mesh) mismatch_mesh) =
           Some ([], tri_mesh)"
    by code_simp
  show ?thesis
    using ne e update_host_patch_count_mismatch [OF ne, of tri_sizes] by simp
qed

text \<open>
  The claim C1 as stated fails: at \<open>mismatch_mesh\<close> the device reports three patches and
  the host knows two; \<open>update_host()\<close> logs the error and then overwrites the host patches,
  the count vectors and the device-side summary arrays.
\<close>

theorem update_host_mismatch_counterexample:
  "m_num_patches (m_rxmesh_context mismatch_mesh) \<noteq> m_num_patches_host mismatch_mesh \<and>
   update_host tri_sizes mismatch_mesh =
     Some ([msg_num_patches], with_device_patches 3 tri_mesh) \<and>
   m_h_patches_info (with_device_patches 3 tri_mesh) \<noteq> m_h_patches_info mismatch_mesh \<and>
   m_h_num_v (with_device_patches 3 tri_mesh) \<noteq> m_h_num_v mismatch_mesh \<and>
   m_h_vertex_prefix (with_device_patches 3 tri_mesh) \<noteq> m_h_vertex_prefix mismatch_mesh \<and>
   m_d_num_v (with_device_patches 3 tri_mesh) \<noteq> m_d_num_v mismatch_mesh"
  by code_simp

section \<open>Bitmask: set, reset and test\<close>

lemma word_idx_in_range:
  "Bitmask_backed b \<Longrightarrow> i < m_size b \<Longrightarrow> unat i div 32 < length (m_bitmask b)"
  unfolding Bitmask_backed_def mask_num_words_def DIVIDE_UP_def
  by (simp add: word_less_nat_alt)

lemma is_set_bit_Some:
  "unat i div 32 < length m \<Longrightarrow> is_set_bit i m = Some (bit (m ! (unat i div 32)) (unat i mod 32))"
  by (simp add: is_set_bit_def Let_def and_exp_eq_0_iff_not_bit)

lemma is_set_bit_after_set:
  assumes "unat i div 32 < length m"
  shows "\<exists>m'. bitmask_set_bit i m a = Some m' \<and> length m' = length m \<and> is_set_bit i m' = Some True"
  using assms by (simp add: bitmask_set_bit_def Let_def is_set_bit_Some bit_simps)

lemma is_set_bit_after_clear:
  assumes "unat i div 32 < length m"
  shows "\<exists>m'. bitmask_clear_bit i m a = Some m' \<and> length m' = length m \<and> is_set_bit i m' = Some False"
  using assms by (simp add: bitmask_clear_bit_def Let_def is_set_bit_Some bit_simps)

text \<open>
  C9. For a mask of \<open>N\<close> bits backed by its \<open>ceil(N/32)\<close> words and a bit index \<open>i < N\<close>,
  \<open>set(i)\<close> followed by the test of bit \<open>i\<close> gives true and \<open>reset(i)\<close> followed by the test
  gives false, whatever the other bits are. For \<open>i \<ge> N\<close> (so also \<open>i = N\<close>) each of
  \<open>set\<close>, \<open>reset\<close>, \<open>flip\<close> and the test ends in the failed assertion and returns no value.
\<close>

theorem Bitmask_round_trip:
  assumes "Bitmask_backed b"
  shows "(i < size_Bitmask b \<longrightarrow>
            (\<exists>b'. set_Bitmask b i a = Inr b' \<and> test_Bitmask b' i = Inr True) \<and>
            (\<exists>b'. reset_Bitmask b i a = Inr b' \<and> test_Bitmask b' i = Inr False)) \<and>
         (\<not> i < size_Bitmask b \<longrightarrow>
            set_Bitmask b i a = Inl AssertionFailed \<and>
            reset_Bitmask b i a = Inl AssertionFailed \<and>
            flip_Bitmask b i a = Inl AssertionFailed \<and>
            test_Bitmask b i = Inl AssertionFailed)"
proof (intro conjI impI)
  assume lt: "i < size_Bitmask b"
  then have idx: "unat i div 32 < length (m_bitmask b)"
    using assms word_idx_in_range by (simp add: size_Bitmask_def)
  from is_set_bit_after_set [OF idx, of a]
  obtain m1 where m1: "bitmask_set_bit i (m_bitmask b) a = Some m1" "is_set_bit i m1 = Some True"
    by blast
  have "set_Bitmask b i a = Inr (b\<lparr>m_bitmask := m1\<rparr>)"
    using lt m1 by (simp add: set_Bitmask_def lift_mask_def)
  moreover have "test_Bitmask (b\<lparr>m_bitmask := m1\<rparr>) i = Inr True"
    using lt m1 by (simp add: test_Bitmask_def size_Bitmask_def)
  ultimately show "\<exists>b'. set_Bitmask b i a = Inr b' \<and> test_Bitmask b' i = Inr True"
    by blast
  from is_set_bit_after_clear [OF idx, of a]
  obtain m0 where m0: "bitmask_clear_bit i (m_bitmask b) a = Some m0" "is_set_bit i m0 = Some False"
    by blast
  have "reset_Bitmask b i a = Inr (b\<lparr>m_bitmask := m0\<rparr>)"
    using lt m0 by (simp add: reset_Bitmask_def lift_mask_def)
  moreover have "test_Bitmask (b\<lparr>m_bitmask := m0\<rparr>) i = Inr False"
    using lt m0 by (simp add: test_Bitmask_def size_Bitmask_def)
  ultimately show "\<exists>b'. reset_Bitmask b i a = Inr b' \<and> test_Bitmask b' i = Inr False"
    by blast
qed (simp_all add: set_Bitmask_def reset_Bitmask_def flip_Bitmask_def test_Bitmask_def)

theorem Bitmask_round_trip_witness:
  "Bitmask_backed mask40 \<and> (37::u16) < size_Bitmask mask40 \<and> \<not> (40::u16) < size_Bitmask mask40 \<and>
   (\<exists>b'. set_Bitmask mask40 37 False = Inr b' \<and> test_Bitmask b' 37 = Inr True) \<and>
   (\<exists>b'. reset_Bitmask mask40 37 False = Inr b' \<and> test_Bitmask b' 37 = Inr False) \<and>
   set_Bitmask mask40 40 False = Inl AssertionFailed \<and>
   test_Bitmask mask40 40 = Inl AssertionFailed"
proof -
  have b: "Bitmask_backed mask40"
    by (simp add: Bitmask_backed_def mask40_def mask_num_words_def DIVIDE_UP_def)
  have l: "(37::u16) < size_Bitmask mask40" and g: "\<not> (40::u16) < size_Bitmask mask40"
    by (simp_all add: size_Bitmask_def mask40_def)
  show ?thesis
    using b l g Bitmask_round_trip [OF b, of 37 False] Bitmask_round_trip [OF b, of 40 False]
    by blast
qed

end
